theory Spec2Isabelle
  imports Complex_Main "HOL-Library.Multiset"
begin

section \<open>Numbers\<close>

text \<open>
  The arrays and tensors of \<^verbatim>\<open>ppo.py\<close> hold floating-point numbers. They are modelled
  as extended reals: a finite value is an exact real (rounding and overflow are left out),
  and the three special values of IEEE-754 that the program can produce (\<^verbatim>\<open>inf\<close>,
  \<^verbatim>\<open>-inf\<close> and \<^verbatim>\<open>nan\<close>) are values of their own, combined as IEEE-754 combines
  them.
\<close>

datatype fnum = Fin real | PInf | NInf | NaN

fun fneg :: "fnum \<Rightarrow> fnum" where
  "fneg (Fin a) = Fin (- a)"
| "fneg PInf = NInf"
| "fneg NInf = PInf"
| "fneg NaN = NaN"

fun fadd :: "fnum \<Rightarrow> fnum \<Rightarrow> fnum" where
  "fadd NaN y = NaN"
| "fadd x NaN = NaN"
| "fadd (Fin a) (Fin b) = Fin (a + b)"
| "fadd (Fin a) PInf = PInf"
| "fadd (Fin a) NInf = NInf"
| "fadd PInf (Fin b) = PInf"
| "fadd NInf (Fin b) = NInf"
| "fadd PInf PInf = PInf"
| "fadd NInf NInf = NInf"
| "fadd PInf NInf = NaN"
| "fadd NInf PInf = NaN"

definition fsub :: "fnum \<Rightarrow> fnum \<Rightarrow> fnum" where
  "fsub x y = fadd x (fneg y)"

text \<open>The product of an infinity and a finite number: its sign, and \<^verbatim>\<open>nan\<close> at zero.\<close>

definition inf_times :: "bool \<Rightarrow> real \<Rightarrow> fnum" where
  "inf_times positive a =
     (if a = 0 then NaN else if (0 < a) = positive then PInf else NInf)"

fun fmul :: "fnum \<Rightarrow> fnum \<Rightarrow> fnum" where
  "fmul NaN y = NaN"
| "fmul x NaN = NaN"
| "fmul (Fin a) (Fin b) = Fin (a * b)"
| "fmul (Fin a) PInf = inf_times True a"
| "fmul (Fin a) NInf = inf_times False a"
| "fmul PInf (Fin b) = inf_times True b"
| "fmul NInf (Fin b) = inf_times False b"
| "fmul PInf PInf = PInf"
| "fmul NInf NInf = PInf"
| "fmul PInf NInf = NInf"
| "fmul NInf PInf = NInf"

text \<open>\<^verbatim>\<open>torch.exp\<close> and \<^verbatim>\<open>torch.log\<close>: the logarithm of zero is \<^verbatim>\<open>-inf\<close>, that of
  a negative number is \<^verbatim>\<open>nan\<close>.\<close>

fun fexp :: "fnum \<Rightarrow> fnum" where
  "fexp (Fin a) = Fin (exp a)"
| "fexp PInf = PInf"
| "fexp NInf = Fin 0"
| "fexp NaN = NaN"

fun flog :: "fnum \<Rightarrow> fnum" where
  "flog (Fin a) = (if 0 < a then Fin (ln a) else if a = 0 then NInf else NaN)"
| "flog PInf = PInf"
| "flog NInf = NaN"
| "flog NaN = NaN"

text \<open>The order of the non-\<^verbatim>\<open>nan\<close> values.\<close>

fun fle :: "fnum \<Rightarrow> fnum \<Rightarrow> bool" where
  "fle NaN y = False"
| "fle x NaN = False"
| "fle NInf y = True"
| "fle x PInf = True"
| "fle (Fin a) (Fin b) = (a \<le> b)"
| "fle PInf y = False"
| "fle x NInf = False"

text \<open>\<^verbatim>\<open>torch.min(a, b)\<close> and \<^verbatim>\<open>torch.max\<close> of two tensors, elementwise: a
  \<^verbatim>\<open>nan\<close> operand gives \<^verbatim>\<open>nan\<close>.\<close>

definition fmin :: "fnum \<Rightarrow> fnum \<Rightarrow> fnum" where
  "fmin x y = (if x = NaN \<or> y = NaN then NaN else if fle x y then x else y)"

definition fmax :: "fnum \<Rightarrow> fnum \<Rightarrow> fnum" where
  "fmax x y = (if x = NaN \<or> y = NaN then NaN else if fle x y then y else x)"

text \<open>\<^verbatim>\<open>torch.clamp(x, lo, hi)\<close> with two numbers as bounds.\<close>

definition fclamp :: "fnum \<Rightarrow> real \<Rightarrow> real \<Rightarrow> fnum" where
  "fclamp x lo hi = fmin (fmax x (Fin lo)) (Fin hi)"

definition fsum :: "fnum list \<Rightarrow> fnum" where
  "fsum xs = foldl fadd (Fin 0) xs"

text \<open>\<^verbatim>\<open>torch.mean\<close>: the sum divided by the number of elements, \<^verbatim>\<open>nan\<close> for an
  empty tensor.\<close>

definition fmean :: "fnum list \<Rightarrow> fnum" where
  "fmean xs = (if xs = [] then NaN else fmul (fsum xs) (Fin (1 / real (length xs))))"

section \<open>The buffer\<close>

text \<open>
  \<^verbatim>\<open>buffer_dict\<close> is a Python dictionary of arrays, one row per transition. Its keys
  are the fields of a record; a key that the dictionary does not hold is \<open>None\<close>.
  The observation type \<open>'o\<close> is the feature vector of the environment. An action is the
  index the driver stored (\<^verbatim>\<open>action.item()\<close> of a sample), a done flag the boolean of
  \<^verbatim>\<open>env.step\<close>; the driver stores both as the floats \<^verbatim>\<open>0.0\<close>, \<^verbatim>\<open>1.0\<close>, ..., which
  \<^verbatim>\<open>.long()\<close> and the truth test of \<^verbatim>\<open>if done_arr[tau_idx]\<close> read back.
  \<^verbatim>\<open>td_delta\<close> and \<^verbatim>\<open>advantages\<close> have the shape \<^verbatim>\<open>(N, 1)\<close> in \<^verbatim>\<open>train\<close>; the model
  keeps their single column.
\<close>

record 'o buffer =
  observations :: "'o list option"
  next_observations :: "'o list option"
  actions :: "nat list option"
  rewards :: "fnum list option"
  dones :: "bool list option"
  td_delta :: "fnum list option"
  advantages :: "fnum list option"

datatype error = KeyError | IndexError | ValueError | ShapeError | RuntimeError

section \<open>compute_advantage\<close>

text \<open>
  The loop \<^verbatim>\<open>for tau_idx in reversed(range(td_delta_arr.shape[0]))\<close>: the third argument
  counts the indices still to visit, so \<open>Suc i\<close> visits index \<open>i\<close>. Reading
  \<^verbatim>\<open>done_arr[tau_idx]\<close> beyond the end of \<^verbatim>\<open>done_arr\<close> raises \<^verbatim>\<open>IndexError\<close>.
  The running value starts as the integer \<^verbatim>\<open>0\<close>. The array written, \<open>out\<close>, is the
  array of zeros that the source stores under \<^verbatim>\<open>'advantages'\<close> before the loop and
  fills in place; the model stores it in the buffer when the loop has ended, and an
  exception leaves no buffer.
\<close>

fun advantage_loop ::
  "real \<Rightarrow> real \<Rightarrow> bool list \<Rightarrow> fnum list \<Rightarrow> nat \<Rightarrow> fnum \<Rightarrow> fnum list \<Rightarrow> error + fnum list"
where
  "advantage_loop g l done_arr td_delta_arr 0 advantage out = Inr out"
| "advantage_loop g l done_arr td_delta_arr (Suc i) advantage out =
     (if length done_arr \<le> i then Inl IndexError
      else
        let advantage0 = (if done_arr ! i then Fin 0 else advantage);
            advantage1 = fadd advantage0 (fmul (Fin (g * l)) (td_delta_arr ! i))
        in advantage_loop g l done_arr td_delta_arr i advantage1 (out[i := advantage1]))"

definition compute_advantage :: "real \<Rightarrow> real \<Rightarrow> 'o buffer \<Rightarrow> error + 'o buffer" where
  "compute_advantage g l buffer_dict =
     (case dones buffer_dict of
        None \<Rightarrow> Inl KeyError
      | Some done_arr \<Rightarrow>
          (case td_delta buffer_dict of
             None \<Rightarrow> Inl KeyError
           | Some td_delta_arr \<Rightarrow>
               (case advantage_loop g l done_arr td_delta_arr (length td_delta_arr) (Fin 0)
                       (replicate (length td_delta_arr) (Fin 0)) of
                  Inl e \<Rightarrow> Inl e
                | Inr out \<Rightarrow> Inr (buffer_dict\<lparr>advantages := Some out\<rparr>))))"


section \<open>The agent and its collaborators\<close>

text \<open>
  \<^verbatim>\<open>self\<close>: the fields \<^verbatim>\<open>__init__\<close> sets. \<open>'p\<close> and \<open>'v\<close> are the states of the policy
  and of the value network (their parameters), \<open>'a\<close> the state of an Adam optimizer.
\<close>

record ('e, 'p, 'v, 'a) ppo =
  env :: "'e"
  batch_size :: int
  latent_dim :: int
  gamma :: real
  lamda :: real
  epsilon :: real
  n_epoch :: int
  device :: string
  policy_net :: "'p"
  value_net :: "'v"
  policy_net_optimizer :: "'a"
  value_net_optimizer :: "'a"

text \<open>
  What \<^verbatim>\<open>ppo.py\<close> imports and calls, taken as parameters: the constructors of the two
  networks (module \<^verbatim>\<open>utils\<close>) and of \<^verbatim>\<open>Adam\<close>, which may raise; the forward pass of
  each network on one observation (a batch with rows is evaluated row by row); what each
  network does with a batch of no rows, which \<^verbatim>\<open>th.as_tensor\<close> makes a tensor of shape
  \<^verbatim>\<open>(0,)\<close>: \<open>None\<close> when it returns the empty batch, the exception when it raises one (a
  linear layer raises \<^verbatim>\<open>RuntimeError\<close> on that shape); the gradient step on
  a loss, \<^verbatim>\<open>zero_grad(); loss.backward(); step()\<close>, which is given the loss as a function of
  the parameters it differentiates, with the optimizer and the parameters it
  updates; \<^verbatim>\<open>np.random.shuffle\<close> and \<^verbatim>\<open>Categorical.sample\<close>, which thread the state
  \<open>'g\<close> of the random source.
\<close>

record ('e, 'o, 'p, 'v, 'a, 'g) collaborators =
  PolicyNet :: "'e \<Rightarrow> string \<Rightarrow> int \<Rightarrow> error + 'p"
  ValueNet :: "'e \<Rightarrow> string \<Rightarrow> int \<Rightarrow> error + 'v"
  Adam :: "real \<Rightarrow> error + 'a"
  policy_forward :: "'p \<Rightarrow> 'o \<Rightarrow> fnum list"
  value_forward :: "'v \<Rightarrow> 'o \<Rightarrow> fnum"
  policy_empty :: "'p \<Rightarrow> error option"
  value_empty :: "'v \<Rightarrow> error option"
  policy_backward_step :: "('p \<Rightarrow> error + fnum) \<Rightarrow> 'a \<Rightarrow> 'p \<Rightarrow> 'a \<times> 'p"
  value_backward_step :: "('v \<Rightarrow> fnum) \<Rightarrow> 'a \<Rightarrow> 'v \<Rightarrow> 'a \<times> 'v"
  shuffle :: "'g \<Rightarrow> nat list \<Rightarrow> nat list \<times> 'g"
  sample :: "'g \<Rightarrow> fnum list \<Rightarrow> nat \<times> 'g"

section \<open>__init__\<close>

text \<open>The arguments in the order of the signature. Nothing is checked: the only failures
  are those of the four constructors, in the order of their calls.\<close>

definition init ::
  "('e, 'o, 'p, 'v, 'a, 'g) collaborators \<Rightarrow> 'e \<Rightarrow> real \<Rightarrow> real \<Rightarrow> real \<Rightarrow> int \<Rightarrow> int \<Rightarrow>
     real \<Rightarrow> real \<Rightarrow> int \<Rightarrow> string \<Rightarrow> error + ('e, 'p, 'v, 'a) ppo"
where
  "init k env0 gamma0 actor_lr critic_lr batch_size0 latent_dim0 lamda0 epsilon0 n_epoch0 device0 =
     (case PolicyNet k env0 device0 latent_dim0 of
        Inl e \<Rightarrow> Inl e
      | Inr pn \<Rightarrow>
          (case ValueNet k env0 device0 latent_dim0 of
             Inl e \<Rightarrow> Inl e
           | Inr vn \<Rightarrow>
               (case Adam k actor_lr of
                  Inl e \<Rightarrow> Inl e
                | Inr po \<Rightarrow>
                    (case Adam k critic_lr of
                       Inl e \<Rightarrow> Inl e
                     | Inr vo \<Rightarrow>
                         Inr \<lparr>env = env0, batch_size = batch_size0, latent_dim = latent_dim0,
                              gamma = gamma0, lamda = lamda0, epsilon = epsilon0,
                              n_epoch = n_epoch0, device = device0, policy_net = pn,
                              value_net = vn, policy_net_optimizer = po,
                              value_net_optimizer = vo\<rparr>))))"

section \<open>take_action\<close>

text \<open>
  \<^verbatim>\<open>action.item()\<close> is a Python integer for the index tensor that \<^verbatim>\<open>sample()\<close>
  returns and a Python float for the float tensor that the property \<^verbatim>\<open>mean\<close> returns.
  For \<^verbatim>\<open>torch.distributions.Categorical\<close> that property is a tensor filled with
  \<^verbatim>\<open>nan\<close>; the property \<^verbatim>\<open>mode\<close> is \<^verbatim>\<open>probs.argmax(-1)\<close>, the first index of the
  largest probability. The constructor of the distribution is taken not to raise.
\<close>

datatype item = Index nat | Float fnum

definition Categorical_mean :: "fnum list \<Rightarrow> fnum" where
  "Categorical_mean probs = NaN"

fun argmax_from :: "nat \<Rightarrow> fnum \<Rightarrow> nat \<Rightarrow> fnum list \<Rightarrow> nat" where
  "argmax_from best largest i [] = best"
| "argmax_from best largest i (x # xs) =
     (if fle x largest \<or> largest = NaN then argmax_from best largest (Suc i) xs
      else argmax_from i x (Suc i) xs)"

definition Categorical_mode :: "fnum list \<Rightarrow> nat" where
  "Categorical_mode probs = (case probs of [] \<Rightarrow> 0 | x # xs \<Rightarrow> argmax_from 0 x 1 xs)"

definition take_action ::
  "('e, 'o, 'p, 'v, 'a, 'g) collaborators \<Rightarrow> ('e, 'p, 'v, 'a) ppo \<Rightarrow> 'o \<Rightarrow> bool \<Rightarrow> 'g \<Rightarrow> item \<times> 'g"
where
  "take_action k self observation deterministic rng =
     (let probs = policy_forward k (policy_net self) observation
      in if deterministic then (Float (Categorical_mean probs), rng)
         else (case sample k rng probs of (action, rng') \<Rightarrow> (Index action, rng')))"

section \<open>train\<close>

text \<open>The exception that a call \<^verbatim>\<open>self.policy_net(batch)\<close> or \<^verbatim>\<open>self.value_net(batch)\<close>
  raises, if it raises one. When it raises none, the result is the forward pass of each
  row.\<close>

definition policy_call ::
  "('e, 'o, 'p, 'v, 'a, 'g) collaborators \<Rightarrow> 'p \<Rightarrow> 'o list \<Rightarrow> error option"
where
  "policy_call k pn batch = (if batch = [] then policy_empty k pn else None)"

definition value_call ::
  "('e, 'o, 'p, 'v, 'a, 'g) collaborators \<Rightarrow> 'v \<Rightarrow> 'o list \<Rightarrow> error option"
where
  "value_call k vn batch = (if batch = [] then value_empty k vn else None)"

text \<open>\<^verbatim>\<open>tensor[sgd_idx_arr]\<close>: the rows at the indices, \<^verbatim>\<open>IndexError\<close> for an index beyond
  the last row.\<close>

definition rows :: "'x list \<Rightarrow> nat list \<Rightarrow> error + 'x list" where
  "rows xs idx =
     (if list_all (\<lambda>i. i < length xs) idx then Inr (map (\<lambda>i. xs ! i) idx) else Inl IndexError)"

text \<open>\<^verbatim>\<open>th.gather(logit, 1, action)\<close> on a batch: of each row, the entry at the row's
  action; an action that is no column of the row is an error.\<close>

definition gather :: "fnum list list \<Rightarrow> nat list \<Rightarrow> error + fnum list" where
  "gather logit action =
     (if list_all (\<lambda>(row, a). a < length row) (zip logit action)
      then Inr (map (\<lambda>(row, a). row ! a) (zip logit action))
      else Inl IndexError)"

text \<open>\<^verbatim>\<open>range(0, stop, step)\<close>: a step of zero raises \<^verbatim>\<open>ValueError\<close>, a negative step
  from \<^verbatim>\<open>0\<close> gives the empty range.\<close>

function range_from :: "nat \<Rightarrow> nat \<Rightarrow> nat \<Rightarrow> nat list" where
  "range_from step stop i =
     (if 0 < step \<and> i < stop then i # range_from step stop (i + step) else [])"
  by pat_completeness auto
termination
  by (relation "measure (\<lambda>(step, stop, i). stop - i)") auto

declare range_from.simps [simp del]

definition py_range :: "nat \<Rightarrow> int \<Rightarrow> error + nat list" where
  "py_range stop step =
     (if step = 0 then Inl ValueError
      else if step < 0 then Inr []
      else Inr (range_from (nat step) stop 0))"

text \<open>The tensors that \<^verbatim>\<open>train\<close> builds from the buffer before its loops, with the
  snapshot \<^verbatim>\<open>old_log_prob\<close> and \<^verbatim>\<open>advantage_tensor\<close>.\<close>

record 'o tensors =
  obs_tensor :: "'o list"
  next_obs_tensor :: "'o list"
  action_tensor :: "nat list"
  done_tensor :: "bool list"
  reward_tensor :: "fnum list"
  old_log_prob :: "fnum list"
  advantage_tensor :: "fnum list"

text \<open>\<^verbatim>\<open>value_net(next_obs) * (1 - done)\<close>, \<^verbatim>\<open>reward + gamma * next_value\<close> and
  \<^verbatim>\<open>F.mse_loss\<close>, on columns.\<close>

definition masked_next_value ::
  "('e, 'o, 'p, 'v, 'a, 'g) collaborators \<Rightarrow> 'v \<Rightarrow> 'o list \<Rightarrow> bool list \<Rightarrow> fnum list"
where
  "masked_next_value k vn next_obs done0 =
     map (\<lambda>(x, d). fmul (value_forward k vn x) (Fin (1 - (if d then 1 else 0)))) (zip next_obs done0)"

definition td_target_of ::
  "('e, 'o, 'p, 'v, 'a, 'g) collaborators \<Rightarrow> real \<Rightarrow> 'v \<Rightarrow> 'o list \<Rightarrow> bool list \<Rightarrow> fnum list \<Rightarrow>
     fnum list"
where
  "td_target_of k g vn next_obs done0 reward =
     map (\<lambda>(r, nv). fadd r (fmul (Fin g) nv)) (zip reward (masked_next_value k vn next_obs done0))"

definition mse_loss :: "fnum list \<Rightarrow> fnum list \<Rightarrow> fnum" where
  "mse_loss input target = fmean (map (\<lambda>(a, b). fmul (fsub a b) (fsub a b)) (zip input target))"

text \<open>The importance ratio and the two losses of one minibatch, as functions of the
  parameters they are computed from. \<^verbatim>\<open>sgd_old_log_prob\<close> and \<^verbatim>\<open>sgd_advantage_tensor\<close>
  are constants of the policy loss (they are detached); the value loss depends on the
  value parameters through \<^verbatim>\<open>value\<close> and through \<^verbatim>\<open>td_target\<close>.\<close>

definition ratio_of ::
  "('e, 'o, 'p, 'v, 'a, 'g) collaborators \<Rightarrow> 'o list \<Rightarrow> nat list \<Rightarrow> fnum list \<Rightarrow> 'p \<Rightarrow>
     error + fnum list"
where
  "ratio_of k sgd_obs sgd_action sgd_old_log_prob pn =
     (case gather (map (policy_forward k pn) sgd_obs) sgd_action of
        Inl e \<Rightarrow> Inl e
      | Inr probs \<Rightarrow>
          Inr (map (\<lambda>(lp, old). fexp (fsub lp old)) (zip (map flog probs) sgd_old_log_prob)))"

definition policy_loss_of :: "real \<Rightarrow> fnum list \<Rightarrow> fnum list \<Rightarrow> fnum" where
  "policy_loss_of eps ratio0 sgd_advantage =
     (let surr0 = map (\<lambda>(r, a). fmul r a) (zip ratio0 sgd_advantage);
          surr1 = map (\<lambda>(r, a). fmul (fclamp r (1 - eps) (1 + eps)) a) (zip ratio0 sgd_advantage)
      in fneg (fmean (map (\<lambda>(a, b). fmin a b) (zip surr0 surr1))))"

definition policy_loss_fn ::
  "('e, 'o, 'p, 'v, 'a, 'g) collaborators \<Rightarrow> real \<Rightarrow> 'o list \<Rightarrow> nat list \<Rightarrow> fnum list \<Rightarrow>
     fnum list \<Rightarrow> 'p \<Rightarrow> error + fnum"
where
  "policy_loss_fn k eps sgd_obs sgd_action sgd_old_log_prob sgd_advantage pn =
     (case ratio_of k sgd_obs sgd_action sgd_old_log_prob pn of
        Inl e \<Rightarrow> Inl e
      | Inr ratio0 \<Rightarrow> Inr (policy_loss_of eps ratio0 sgd_advantage))"

definition value_loss_fn ::
  "('e, 'o, 'p, 'v, 'a, 'g) collaborators \<Rightarrow> real \<Rightarrow> 'o list \<Rightarrow> 'o list \<Rightarrow> bool list \<Rightarrow>
     fnum list \<Rightarrow> 'v \<Rightarrow> fnum"
where
  "value_loss_fn k g sgd_obs sgd_next_obs sgd_done sgd_reward vn =
     mse_loss (map (value_forward k vn) sgd_obs) (td_target_of k g vn sgd_next_obs sgd_done sgd_reward)"

text \<open>What one pass through the body of the minibatch loop computed: its local
  variables, and the agent as it was when the pass began and when it ended.\<close>

record ('e, 'p, 'v, 'a) minibatch =
  sgd_idx_arr :: "nat list"
  sgd_old_log_prob :: "fnum list"
  ratio :: "fnum list"
  td_target :: "fnum list"
  policy_loss :: fnum
  value_loss :: fnum
  self_before :: "('e, 'p, 'v, 'a) ppo"
  self_after :: "('e, 'p, 'v, 'a) ppo"

text \<open>The body of the minibatch loop (lines 77 to 104).\<close>

definition sgd_step ::
  "('e, 'o, 'p, 'v, 'a, 'g) collaborators \<Rightarrow> 'o tensors \<Rightarrow> nat list \<Rightarrow> ('e, 'p, 'v, 'a) ppo \<Rightarrow>
     error + ('e, 'p, 'v, 'a) ppo \<times> ('e, 'p, 'v, 'a) minibatch"
where
  "sgd_step k t idx self =
     (case rows (obs_tensor t) idx of Inl e \<Rightarrow> Inl e | Inr sgd_obs \<Rightarrow>
     (case rows (next_obs_tensor t) idx of Inl e \<Rightarrow> Inl e | Inr sgd_next_obs \<Rightarrow>
     (case rows (action_tensor t) idx of Inl e \<Rightarrow> Inl e | Inr sgd_action \<Rightarrow>
     (case rows (done_tensor t) idx of Inl e \<Rightarrow> Inl e | Inr sgd_done \<Rightarrow>
     (case rows (reward_tensor t) idx of Inl e \<Rightarrow> Inl e | Inr sgd_reward \<Rightarrow>
     (case rows (advantage_tensor t) idx of Inl e \<Rightarrow> Inl e | Inr sgd_advantage \<Rightarrow>
     (case rows (old_log_prob t) idx of Inl e \<Rightarrow> Inl e | Inr sgd_old \<Rightarrow>
     (case policy_call k (policy_net self) sgd_obs of Some e \<Rightarrow> Inl e | None \<Rightarrow>
     (case ratio_of k sgd_obs sgd_action sgd_old (policy_net self) of
        Inl e \<Rightarrow> Inl e
      | Inr ratio0 \<Rightarrow>
     (case value_call k (value_net self) sgd_obs of Some e \<Rightarrow> Inl e | None \<Rightarrow>
     (case value_call k (value_net self) sgd_next_obs of Some e \<Rightarrow> Inl e | None \<Rightarrow>
        (let ploss = policy_loss_fn k (epsilon self) sgd_obs sgd_action sgd_old sgd_advantage;
             vloss = value_loss_fn k (gamma self) sgd_obs sgd_next_obs sgd_done sgd_reward;
             (po, pn) = policy_backward_step k ploss (policy_net_optimizer self) (policy_net self);
             (vo, vn) = value_backward_step k vloss (value_net_optimizer self) (value_net self);
             self1 = self\<lparr>policy_net := pn, value_net := vn, policy_net_optimizer := po,
                           value_net_optimizer := vo\<rparr>
         in Inr (self1,
                 \<lparr>sgd_idx_arr = idx, sgd_old_log_prob = sgd_old, ratio = ratio0,
                  td_target = td_target_of k (gamma self) (value_net self) sgd_next_obs sgd_done
                                sgd_reward,
                  policy_loss = policy_loss_of (epsilon self) ratio0 sgd_advantage,
                  value_loss = vloss (value_net self),
                  self_before = self, self_after = self1\<rparr>)))))))))))))"

text \<open>The minibatch loop over the start indices of \<^verbatim>\<open>range(0, idx_arr.shape[0],
  self.batch_size)\<close>; the minibatch is the slice
  \<^verbatim>\<open>idx_arr[sgd_idx: sgd_idx + self.batch_size]\<close>.\<close>

fun sgd_loop ::
  "('e, 'o, 'p, 'v, 'a, 'g) collaborators \<Rightarrow> 'o tensors \<Rightarrow> nat list \<Rightarrow> nat list \<Rightarrow>
     ('e, 'p, 'v, 'a) ppo \<Rightarrow> error + ('e, 'p, 'v, 'a) ppo \<times> ('e, 'p, 'v, 'a) minibatch list"
where
  "sgd_loop k t idx_arr [] self = Inr (self, [])"
| "sgd_loop k t idx_arr (sgd_idx # starts) self =
     (case sgd_step k t (take (nat (batch_size self)) (drop sgd_idx idx_arr)) self of
        Inl e \<Rightarrow> Inl e
      | Inr (self1, m) \<Rightarrow>
          (case sgd_loop k t idx_arr starts self1 of
             Inl e \<Rightarrow> Inl e
           | Inr (self2, ms) \<Rightarrow> Inr (self2, m # ms)))"

text \<open>The epoch loop \<^verbatim>\<open>for _ in range(self.n_epoch)\<close>; the first argument after the
  tensors counts the epochs still to run. The result lists the minibatches of each
  epoch.\<close>

fun epoch_loop ::
  "('e, 'o, 'p, 'v, 'a, 'g) collaborators \<Rightarrow> 'o tensors \<Rightarrow> nat \<Rightarrow> ('e, 'p, 'v, 'a) ppo \<Rightarrow> 'g \<Rightarrow>
     error + ('e, 'p, 'v, 'a) ppo \<times> 'g \<times> ('e, 'p, 'v, 'a) minibatch list list"
where
  "epoch_loop k t 0 self rng = Inr (self, rng, [])"
| "epoch_loop k t (Suc n) self rng =
     (case shuffle k rng [0..<length (obs_tensor t)] of
        (idx_arr, rng1) \<Rightarrow>
          (case py_range (length idx_arr) (batch_size self) of
             Inl e \<Rightarrow> Inl e
           | Inr starts \<Rightarrow>
               (case sgd_loop k t idx_arr starts self of
                  Inl e \<Rightarrow> Inl e
                | Inr (self1, ms) \<Rightarrow>
                    (case epoch_loop k t n self1 rng1 of
                       Inl e \<Rightarrow> Inl e
                     | Inr (self2, rng2, mss) \<Rightarrow> Inr (self2, rng2, ms # mss)))))"

text \<open>
  \<^verbatim>\<open>train\<close>. A key the buffer lacks raises \<^verbatim>\<open>KeyError\<close>. The networks are called on
  the whole buffer (lines 61, 63 and 64) before anything else is computed, also when the
  buffer has no rows. The source has no check of
  the lengths of the five arrays; on arrays of different lengths torch broadcasts or
  fails, case by case, and the model answers \<open>ShapeError\<close> to all of them. The result
  is the agent, the buffer (with \<^verbatim>\<open>td_delta\<close> and \<^verbatim>\<open>advantages\<close>), the random source and
  the minibatches that ran, epoch by epoch; an exception leaves no result. The local names
  \<open>old\<close>, \<open>val\<close>, \<open>target\<close> and \<open>delta\<close> stand for \<^verbatim>\<open>old_log_prob\<close>, \<^verbatim>\<open>value\<close>,
  \<^verbatim>\<open>td_target\<close> and \<^verbatim>\<open>td_delta\<close> of lines 62 to 66.
\<close>

definition aligned :: "'o list \<Rightarrow> 'o list \<Rightarrow> nat list \<Rightarrow> bool list \<Rightarrow> fnum list \<Rightarrow> bool" where
  "aligned obs next_obs acts dns rews =
     (length next_obs = length obs \<and> length acts = length obs \<and> length dns = length obs \<and>
      length rews = length obs)"

definition train ::
  "('e, 'o, 'p, 'v, 'a, 'g) collaborators \<Rightarrow> ('e, 'p, 'v, 'a) ppo \<Rightarrow> 'o buffer \<Rightarrow> 'g \<Rightarrow>
     error + ('e, 'p, 'v, 'a) ppo \<times> 'o buffer \<times> 'g \<times> ('e, 'p, 'v, 'a) minibatch list list"
where
  "train k self buffer_dict rng =
     (case observations buffer_dict of None \<Rightarrow> Inl KeyError | Some obs \<Rightarrow>
     (case next_observations buffer_dict of None \<Rightarrow> Inl KeyError | Some next_obs \<Rightarrow>
     (case actions buffer_dict of None \<Rightarrow> Inl KeyError | Some acts \<Rightarrow>
     (case dones buffer_dict of None \<Rightarrow> Inl KeyError | Some dns \<Rightarrow>
     (case rewards buffer_dict of None \<Rightarrow> Inl KeyError | Some rews \<Rightarrow>
      if \<not> aligned obs next_obs acts dns rews then Inl ShapeError
      else
     (case policy_call k (policy_net self) obs of Some e \<Rightarrow> Inl e | None \<Rightarrow>
     (case gather (map (policy_forward k (policy_net self)) obs) acts of
        Inl e \<Rightarrow> Inl e
      | Inr probs \<Rightarrow>
     (case value_call k (value_net self) obs of Some e \<Rightarrow> Inl e | None \<Rightarrow>
     (case value_call k (value_net self) next_obs of Some e \<Rightarrow> Inl e | None \<Rightarrow>
        (let old = map flog probs;
             val = map (value_forward k (value_net self)) obs;
             target = td_target_of k (gamma self) (value_net self) next_obs dns rews;
             delta = map (\<lambda>(a, b). fsub a b) (zip target val)
         in (case compute_advantage (gamma self) (lamda self)
                    (buffer_dict\<lparr>td_delta := Some delta\<rparr>) of
               Inl e \<Rightarrow> Inl e
             | Inr buffer1 \<Rightarrow>
                 (case advantages buffer1 of
                    None \<Rightarrow> Inl KeyError
                  | Some adv \<Rightarrow>
                      (case epoch_loop k
                              \<lparr>obs_tensor = obs, next_obs_tensor = next_obs,
                               action_tensor = acts, done_tensor = dns,
                               reward_tensor = rews, old_log_prob = old,
                               advantage_tensor = adv\<rparr>
                              (nat (n_epoch self)) self rng of
                         Inl e \<Rightarrow> Inl e
                       | Inr (self1, rng1, mss) \<Rightarrow>
                           Inr (self1, buffer1, rng1, mss))))))))))))))"

section \<open>Auxiliary functions of the proofs\<close>

text \<open>The advantages as a function of the two lists, by recursion from the left: the
  head is computed from the head of the rest.\<close>

fun adv_list :: "real \<Rightarrow> real \<Rightarrow> bool list \<Rightarrow> fnum list \<Rightarrow> fnum list" where
  "adv_list g l ds [] = []"
| "adv_list g l [] (x # xs) = []"
| "adv_list g l (d # ds) (x # xs) =
     (let rest = adv_list g l ds xs
      in fadd (if d then Fin 0 else (case rest of [] \<Rightarrow> Fin 0 | r # _ \<Rightarrow> r))
              (fmul (Fin (g * l)) x) # rest)"


text \<open>The minibatches of a run in the order in which they ran: each begins with the agent
  that the one before left.\<close>

fun linked ::
  "('e, 'p, 'v, 'a) ppo \<Rightarrow> ('e, 'p, 'v, 'a) minibatch list \<Rightarrow> ('e, 'p, 'v, 'a) ppo \<Rightarrow> bool"
where
  "linked s [] s' = (s = s')"
| "linked s (m # ms) s' = (self_before m = s \<and> linked (self_after m) ms s')"

text \<open>A small instance of the collaborators, for the examples: parameters are counters
  that each gradient step increments, the policy puts all probability on action \<open>0\<close>
  before its first step and on action \<open>1\<close> after it, the value of every observation is the
  counter, both networks return the empty batch for the empty batch, and the shuffle
  reverses the indices.\<close>

definition toy :: "(unit, nat, nat, nat, nat, unit) collaborators" where
  "toy = \<lparr>PolicyNet = (\<lambda>e d n. Inr 0), ValueNet = (\<lambda>e d n. Inr 0),
          Adam = (\<lambda>lr. if lr < 0 then Inl ValueError else Inr 0),
          policy_forward = (\<lambda>p x. if p = 0 then [Fin 1, Fin 0] else [Fin 0, Fin 1]),
          value_forward = (\<lambda>v x. Fin (real v)),
          policy_empty = (\<lambda>p. None), value_empty = (\<lambda>v. None),
          policy_backward_step = (\<lambda>f a p. (Suc a, Suc p)),
          value_backward_step = (\<lambda>f a v. (Suc a, Suc v)),
          shuffle = (\<lambda>g xs. (rev xs, g)),
          sample = (\<lambda>g probs. (0, g))\<rparr>"

text \<open>The agent of the examples, with its batch size and the counter that all four of its
  states hold, and a buffer of three transitions that end an episode, with its actions.\<close>

definition toy_agent :: "int \<Rightarrow> nat \<Rightarrow> (unit, nat, nat, nat) ppo" where
  "toy_agent b n =
     \<lparr>env = (), batch_size = b, latent_dim = 64, gamma = 1 / 2, lamda = 1, epsilon = 1 / 5,
      n_epoch = 1, device = ''cpu'', policy_net = n, value_net = n,
      policy_net_optimizer = n, value_net_optimizer = n\<rparr>"

definition toy_buffer :: "nat list \<Rightarrow> nat buffer" where
  "toy_buffer acts =
     \<lparr>observations = Some [0, 1, 2], next_observations = Some [1, 2, 3],
      actions = Some acts, rewards = Some [Fin 1, Fin 1, Fin 1],
      dones = Some [False, False, True], td_delta = None, advantages = None\<rparr>"
section \<open>Properties of compute_advantage\<close>

lemma fadd_zero_left: "fadd (Fin 0) x = x"
  by (cases x) simp_all

lemma fadd_commute: "fadd x y = fadd y x"
  by (cases x; cases y) simp_all

lemma fadd_assoc: "fadd (fadd x y) z = fadd x (fadd y z)"
  by (cases x; cases y; cases z) simp_all

lemma length_adv_list: "length xs \<le> length ds \<Longrightarrow> length (adv_list g l ds xs) = length xs"
  by (induction g l ds xs rule: adv_list.induct) (auto simp: Let_def)

lemma adv_list_nth:
  "length xs \<le> length ds \<Longrightarrow> i < length xs \<Longrightarrow>
   adv_list g l ds xs ! i =
     fadd (if ds ! i then Fin 0
           else if Suc i < length xs then adv_list g l ds xs ! Suc i else Fin 0)
          (fmul (Fin (g * l)) (xs ! i))"
proof (induction g l ds xs arbitrary: i rule: adv_list.induct)
  case (3 g l d ds x xs)
  show ?case
  proof (cases i)
    case 0
    have len: "length (adv_list g l ds xs) = length xs"
      using 3 by (simp add: length_adv_list)
    show ?thesis
    proof (cases xs)
      case Nil
      then show ?thesis using 0 by simp
    next
      case (Cons y ys)
      then obtain r rs where r: "adv_list g l ds xs = r # rs"
        using len by (cases "adv_list g l ds xs") simp_all
      show ?thesis using 0 Cons r by (simp add: Let_def)
    qed
  next
    case (Suc j)
    have "adv_list g l ds xs ! j =
      fadd (if ds ! j then Fin 0
           else if Suc j < length xs then adv_list g l ds xs ! Suc j else Fin 0)
          (fmul (Fin (g * l)) (xs ! j))"
      by (rule "3.IH") (use 3 Suc in simp_all)
    then show ?thesis using Suc by (simp add: Let_def)
  qed
qed simp_all

lemma advantage_loop_correct:
  "n \<le> length td \<Longrightarrow> length td \<le> length dn \<Longrightarrow> length out = length td \<Longrightarrow>
   drop n out = drop n (adv_list g l dn td) \<Longrightarrow>
   acc = (if n < length td then adv_list g l dn td ! n else Fin 0) \<Longrightarrow>
   advantage_loop g l dn td n acc out = Inr (adv_list g l dn td)"
proof (induction n arbitrary: acc out)
  case 0
  then show ?case by simp
next
  case (Suc i)
  define full where "full = adv_list g l dn td"
  define v where "v = fadd (if dn ! i then Fin 0 else acc) (fmul (Fin (g * l)) (td ! i))"
  have i: "i < length td" using Suc.prems(1) by simp
  have len: "length full = length td"
    using Suc.prems(2) by (simp add: length_adv_list full_def)
  have v: "v = full ! i"
    using adv_list_nth[OF Suc.prems(2) i, of g l] Suc.prems(5)
    by (simp add: v_def full_def)
  have "drop i (out[i := v]) = v # drop (Suc i) out"
    using i Suc.prems(3) by (simp add: drop_update_swap Cons_nth_drop_Suc[symmetric])
  also have "\<dots> = full ! i # drop (Suc i) full"
    using v Suc.prems(4) by (simp add: full_def)
  also have "\<dots> = drop i full"
    using i len by (simp add: Cons_nth_drop_Suc)
  finally have d: "drop i (out[i := v]) = drop i full" .
  have "advantage_loop g l dn td i v (out[i := v]) = Inr (adv_list g l dn td)"
  proof (rule Suc.IH)
    show "i \<le> length td" using i by simp
    show "length td \<le> length dn" by (rule Suc.prems(2))
    show "length (out[i := v]) = length td" using Suc.prems(3) by simp
    show "drop i (out[i := v]) = drop i (adv_list g l dn td)" using d by (simp add: full_def)
    show "v = (if i < length td then adv_list g l dn td ! i else Fin 0)"
      using v i by (simp add: full_def)
  qed
  moreover have "\<not> length dn \<le> i" using i Suc.prems(2) by simp
  ultimately show ?case by (simp add: Let_def v_def)
qed

lemma compute_advantage_eq:
  assumes "dones b = Some dn" and "td_delta b = Some td" and "length td \<le> length dn"
  shows "compute_advantage g l b = Inr (b\<lparr>advantages := Some (adv_list g l dn td)\<rparr>)"
proof -
  have "advantage_loop g l dn td (length td) (Fin 0) (replicate (length td) (Fin 0))
          = Inr (adv_list g l dn td)"
    by (rule advantage_loop_correct) (use assms(3) in \<open>simp_all add: length_adv_list\<close>)
  then show ?thesis
    using assms(1,2) by (simp add: compute_advantage_def)
qed

lemma compute_advantage_short:
  assumes "dones b = Some dn" and "td_delta b = Some td" and "length dn < length td"
  shows "compute_advantage g l b = Inl IndexError"
proof -
  obtain n where n: "length td = Suc n"
    using assms(3) by (cases "length td") simp_all
  then have "length dn \<le> n" using assms(3) by simp
  then show ?thesis
    using assms(1,2) n by (simp add: compute_advantage_def)
qed

lemma adv_list_Nil_iff: "length xs \<le> length ds \<Longrightarrow> (adv_list g l ds xs = []) = (xs = [])"
  using length_adv_list[of xs ds g l] by (cases xs) auto

lemma adv_list_append:
  "length ds1 = length xs1 \<Longrightarrow> ds1 \<noteq> [] \<Longrightarrow> last ds1 \<Longrightarrow>
   adv_list g l (ds1 @ ds2) (xs1 @ xs2) = adv_list g l ds1 xs1 @ adv_list g l ds2 xs2"
proof (induction ds1 xs1 rule: list_induct2)
  case Nil
  then show ?case by simp
next
  case (Cons d ds1 x xs1)
  show ?case
  proof (cases "ds1 = []")
    case True
    then have "d" and "xs1 = []" using Cons.prems Cons.hyps by simp_all
    then show ?thesis using True by (simp add: Let_def)
  next
    case False
    then have IH: "adv_list g l (ds1 @ ds2) (xs1 @ xs2)
                     = adv_list g l ds1 xs1 @ adv_list g l ds2 xs2"
      using Cons.IH Cons.prems by simp
    have "xs1 \<noteq> []" using False Cons.hyps by auto
    then have "adv_list g l ds1 xs1 \<noteq> []"
      using Cons.hyps by (simp add: adv_list_Nil_iff)
    then obtain r rs where r: "adv_list g l ds1 xs1 = r # rs"
      by (cases "adv_list g l ds1 xs1") simp_all
    show ?thesis using IH r by (simp add: Let_def)
  qed
qed

text \<open>The running value of the loop over one stretch of the buffer, last row first.\<close>

lemma adv_list_episode:
  assumes "length td \<le> length dn" and "e < length td" and "dn ! e \<or> Suc e = length td"
    and "t \<le> e" and "\<forall>j. t \<le> j \<and> j < e \<longrightarrow> \<not> dn ! j"
  shows "adv_list g l dn td ! t =
           foldr (\<lambda>d running. fadd running (fmul (Fin (g * l)) d))
             (take (Suc e - t) (drop t td)) (Fin 0)"
  using assms(4,5)
proof (induction "e - t" arbitrary: t)
  case 0
  then have t: "t = e" by simp
  have "take (Suc e - e) (drop e td) = [td ! e]"
    using assms(2) by (simp add: take_Suc_conv_app_nth)
  moreover have "adv_list g l dn td ! e = fadd (Fin 0) (fmul (Fin (g * l)) (td ! e))"
    using adv_list_nth[OF assms(1,2), of g l] assms(3) by auto
  ultimately show ?case using t by simp
next
  case (Suc n)
  then have lt: "t < e" by simp
  then have tl: "t < length td" using assms(2) by simp
  have nd: "\<not> dn ! t" using Suc.prems(2) lt by simp
  have IH: "adv_list g l dn td ! Suc t =
           foldr (\<lambda>d running. fadd running (fmul (Fin (g * l)) d))
             (take (Suc e - Suc t) (drop (Suc t) td)) (Fin 0)"
    by (rule Suc.hyps(1)) (use Suc.hyps(2) Suc.prems lt in auto)
  have "take (Suc e - t) (drop t td) = td ! t # take (Suc e - Suc t) (drop (Suc t) td)"
    using tl lt by (simp add: Cons_nth_drop_Suc[symmetric] Suc_diff_le)
  moreover have "adv_list g l dn td ! t =
      fadd (adv_list g l dn td ! Suc t) (fmul (Fin (g * l)) (td ! t))"
    using adv_list_nth[OF assms(1) tl, of g l] nd lt assms(2) by simp
  ultimately show ?case using IH by simp
qed

lemma last_take_Suc: "k < length xs \<Longrightarrow> last (take (Suc k) xs) = xs ! k"
  by (simp add: take_Suc_conv_app_nth)

lemma adv_list_split:
  assumes "length dn = length td" and "k < length td" and "dn ! k"
  shows "adv_list g l dn td =
           adv_list g l (take (Suc k) dn) (take (Suc k) td) @
           adv_list g l (drop (Suc k) dn) (drop (Suc k) td)"
proof -
  have "adv_list g l (take (Suc k) dn @ drop (Suc k) dn) (take (Suc k) td @ drop (Suc k) td) =
           adv_list g l (take (Suc k) dn) (take (Suc k) td) @
           adv_list g l (drop (Suc k) dn) (drop (Suc k) td)"
  proof (rule adv_list_append)
    show "length (take (Suc k) dn) = length (take (Suc k) td)" using assms(1) by simp
    show "take (Suc k) dn \<noteq> []" using assms(1,2) by auto
    show "last (take (Suc k) dn)" using assms by (simp add: last_take_Suc)
  qed
  then show ?thesis by simp
qed

lemma advantage_loop_length:
  "advantage_loop g l dn td n acc out = Inr r \<Longrightarrow> length r = length out"
  by (induction n arbitrary: acc out) (auto simp: Let_def split: if_splits)

lemma compute_advantage_InrD:
  assumes "compute_advantage g l b = Inr b'"
  shows "\<exists>dn td adv. dones b = Some dn \<and> td_delta b = Some td \<and> length adv = length td \<and>
           advantage_loop g l dn td (length td) (Fin 0) (replicate (length td) (Fin 0)) = Inr adv \<and>
           b' = b\<lparr>advantages := Some adv\<rparr>"
proof -
  obtain dn where dn: "dones b = Some dn"
    using assms by (cases "dones b") (simp_all add: compute_advantage_def)
  obtain td where td: "td_delta b = Some td"
    using assms dn by (cases "td_delta b") (simp_all add: compute_advantage_def)
  obtain adv where adv:
    "advantage_loop g l dn td (length td) (Fin 0) (replicate (length td) (Fin 0)) = Inr adv"
    using assms dn td
    by (cases "advantage_loop g l dn td (length td) (Fin 0) (replicate (length td) (Fin 0))")
       (simp_all add: compute_advantage_def)
  have "b' = b\<lparr>advantages := Some adv\<rparr>"
    using assms dn td adv by (simp add: compute_advantage_def)
  moreover have "length adv = length td"
    using advantage_loop_length [OF adv] by simp
  ultimately show ?thesis using dn td adv by blast
qed


section \<open>The loops of train\<close>

lemma rows_InrD:
  "rows xs idx = Inr ys \<Longrightarrow> ys = map (\<lambda>i. xs ! i) idx \<and> (\<forall>i\<in>set idx. i < length xs)"
  by (auto simp: rows_def list_all_iff split: if_splits)

lemma rows_Inr: "\<forall>i\<in>set idx. i < length xs \<Longrightarrow> rows xs idx = Inr (map (\<lambda>i. xs ! i) idx)"
  by (simp add: rows_def list_all_iff)

lemma sgd_step_InrD:
  assumes "sgd_step k t idx self = Inr (self1, m)"
  shows "\<exists>r. ratio_of k (map (\<lambda>i. obs_tensor t ! i) idx) (map (\<lambda>i. action_tensor t ! i) idx)
                (map (\<lambda>i. old_log_prob t ! i) idx) (policy_net self) = Inr r \<and>
          m = \<lparr>sgd_idx_arr = idx, sgd_old_log_prob = map (\<lambda>i. old_log_prob t ! i) idx,
               ratio = r,
               td_target = td_target_of k (gamma self) (value_net self)
                             (map (\<lambda>i. next_obs_tensor t ! i) idx)
                             (map (\<lambda>i. done_tensor t ! i) idx)
                             (map (\<lambda>i. reward_tensor t ! i) idx),
               policy_loss = policy_loss_of (epsilon self) r (map (\<lambda>i. advantage_tensor t ! i) idx),
               value_loss = value_loss_fn k (gamma self) (map (\<lambda>i. obs_tensor t ! i) idx)
                             (map (\<lambda>i. next_obs_tensor t ! i) idx)
                             (map (\<lambda>i. done_tensor t ! i) idx)
                             (map (\<lambda>i. reward_tensor t ! i) idx) (value_net self),
               self_before = self, self_after = self1\<rparr>"
  using assms
  by (auto simp: sgd_step_def Let_def split: sum.splits prod.splits option.splits dest!: rows_InrD)

lemma sgd_step_after:
  assumes "sgd_step k t idx self = Inr (self1, m)"
  shows "(policy_net_optimizer self1, policy_net self1) =
           policy_backward_step k
             (policy_loss_fn k (epsilon self) (map (\<lambda>i. obs_tensor t ! i) idx)
                (map (\<lambda>i. action_tensor t ! i) idx) (map (\<lambda>i. old_log_prob t ! i) idx)
                (map (\<lambda>i. advantage_tensor t ! i) idx))
             (policy_net_optimizer self) (policy_net self)"
    and "(value_net_optimizer self1, value_net self1) =
           value_backward_step k
             (value_loss_fn k (gamma self) (map (\<lambda>i. obs_tensor t ! i) idx)
                (map (\<lambda>i. next_obs_tensor t ! i) idx) (map (\<lambda>i. done_tensor t ! i) idx)
                (map (\<lambda>i. reward_tensor t ! i) idx))
             (value_net_optimizer self) (value_net self)"
    and "batch_size self1 = batch_size self" and "gamma self1 = gamma self"
    and "epsilon self1 = epsilon self" and "lamda self1 = lamda self"
    and "n_epoch self1 = n_epoch self"
  using assms
  by (auto simp: sgd_step_def Let_def split: sum.splits prod.splits option.splits dest!: rows_InrD)

lemma sgd_step_in_range:
  assumes "sgd_step k t idx self = Inr (self1, m)"
  shows "\<forall>i\<in>set idx. i < length (obs_tensor t) \<and> i < length (next_obs_tensor t) \<and>
           i < length (action_tensor t) \<and> i < length (done_tensor t) \<and>
           i < length (reward_tensor t) \<and> i < length (advantage_tensor t) \<and>
           i < length (old_log_prob t)"
  using assms
  by (auto simp: sgd_step_def Let_def split: sum.splits prod.splits option.splits dest!: rows_InrD)

lemma sgd_loop_invariant:
  assumes "sgd_loop k t idx_arr starts self = Inr (self', ms)"
    and "Q self"
    and "\<And>idx s s1 m. Q s \<Longrightarrow> sgd_step k t idx s = Inr (s1, m) \<Longrightarrow> P m \<and> Q s1"
  shows "Q self' \<and> (\<forall>m\<in>set ms. P m)"
  using assms(1,2)
proof (induction starts arbitrary: self ms)
  case Nil
  then show ?case by simp
next
  case (Cons sgd_idx starts)
  from Cons.prems(1) obtain s1 m ms1 where
    st: "sgd_step k t (take (nat (batch_size self)) (drop sgd_idx idx_arr)) self = Inr (s1, m)"
    and lp: "sgd_loop k t idx_arr starts s1 = Inr (self', ms1)" and ms: "ms = m # ms1"
    by (auto split: sum.splits prod.splits)
  from assms(3) [OF Cons.prems(2) st] have "P m" and "Q s1" by simp_all
  with Cons.IH [OF lp] ms show ?case by simp
qed

lemma sgd_loop_linked:
  "sgd_loop k t idx_arr starts self = Inr (self', ms) \<Longrightarrow> linked self ms self'"
proof (induction starts arbitrary: self ms)
  case Nil
  then show ?case by simp
next
  case (Cons sgd_idx starts)
  from Cons.prems obtain s1 m ms1 where
    st: "sgd_step k t (take (nat (batch_size self)) (drop sgd_idx idx_arr)) self = Inr (s1, m)"
    and lp: "sgd_loop k t idx_arr starts s1 = Inr (self', ms1)" and ms: "ms = m # ms1"
    by (auto split: sum.splits prod.splits)
  from sgd_step_InrD [OF st] have "self_before m = self" "self_after m = s1" by auto
  with Cons.IH [OF lp] ms show ?case by simp
qed

lemma sgd_loop_idx:
  "sgd_loop k t idx_arr starts self = Inr (self', ms) \<Longrightarrow>
   map sgd_idx_arr ms = map (\<lambda>s. take (nat (batch_size self)) (drop s idx_arr)) starts \<and>
   batch_size self' = batch_size self"
proof (induction starts arbitrary: self ms)
  case Nil
  then show ?case by simp
next
  case (Cons sgd_idx starts)
  from Cons.prems obtain s1 m ms1 where
    st: "sgd_step k t (take (nat (batch_size self)) (drop sgd_idx idx_arr)) self = Inr (s1, m)"
    and lp: "sgd_loop k t idx_arr starts s1 = Inr (self', ms1)" and ms: "ms = m # ms1"
    by (auto split: sum.splits prod.splits)
  from sgd_step_InrD [OF st]
  have "sgd_idx_arr m = take (nat (batch_size self)) (drop sgd_idx idx_arr)" by auto
  moreover have "batch_size s1 = batch_size self" by (rule sgd_step_after(3) [OF st])
  ultimately show ?case using Cons.IH [OF lp] ms by simp
qed

lemma linked_append:
  "linked s ms s1 \<Longrightarrow> linked s1 ms' s2 \<Longrightarrow> linked s (ms @ ms') s2"
  by (induction ms arbitrary: s) auto

lemma epoch_loop_cases:
  assumes "epoch_loop k t (Suc n) self rng = Inr (self', rng', mss)"
  obtains idx_arr rng1 starts s1 ms mss1 where
    "shuffle k rng [0..<length (obs_tensor t)] = (idx_arr, rng1)"
    "py_range (length idx_arr) (batch_size self) = Inr starts"
    "sgd_loop k t idx_arr starts self = Inr (s1, ms)"
    "epoch_loop k t n s1 rng1 = Inr (self', rng', mss1)"
    "mss = ms # mss1"
  using assms by (auto split: sum.splits prod.splits)

lemma epoch_loop_invariant:
  assumes "epoch_loop k t n self rng = Inr (self', rng', mss)"
    and "Q self"
    and "\<And>idx s s1 m. Q s \<Longrightarrow> sgd_step k t idx s = Inr (s1, m) \<Longrightarrow> P m \<and> Q s1"
  shows "Q self' \<and> (\<forall>ms\<in>set mss. \<forall>m\<in>set ms. P m)"
  using assms(1,2)
proof (induction n arbitrary: self rng mss)
  case 0
  then show ?case by simp
next
  case (Suc n)
  from Suc.prems(1) obtain idx_arr rng1 starts s1 ms mss1 where
    lp: "sgd_loop k t idx_arr starts self = Inr (s1, ms)"
    and ep: "epoch_loop k t n s1 rng1 = Inr (self', rng', mss1)" and mss: "mss = ms # mss1"
    by (rule epoch_loop_cases)
  from sgd_loop_invariant [of k t idx_arr starts self s1 ms Q P, OF lp Suc.prems(2) assms(3)]
  have "Q s1" and "\<forall>m\<in>set ms. P m" by simp_all
  with Suc.IH [OF ep] mss show ?case by simp
qed

lemma epoch_loop_linked:
  "epoch_loop k t n self rng = Inr (self', rng', mss) \<Longrightarrow>
   length mss = n \<and> linked self (concat mss) self'"
proof (induction n arbitrary: self rng mss)
  case 0
  then show ?case by simp
next
  case (Suc n)
  from Suc.prems obtain idx_arr rng1 starts s1 ms mss1 where
    lp: "sgd_loop k t idx_arr starts self = Inr (s1, ms)"
    and ep: "epoch_loop k t n s1 rng1 = Inr (self', rng', mss1)" and mss: "mss = ms # mss1"
    by (rule epoch_loop_cases)
  from sgd_loop_linked [OF lp] Suc.IH [OF ep] mss show ?case
    by (simp add: linked_append)
qed

lemma epoch_loop_idx:
  assumes "epoch_loop k t n self rng = Inr (self', rng', mss)"
  shows "batch_size self' = batch_size self \<and>
    (\<forall>ms\<in>set mss. \<exists>g starts.
       py_range (length (fst (shuffle k g [0..<length (obs_tensor t)]))) (batch_size self)
         = Inr starts \<and>
       map sgd_idx_arr ms =
         map (\<lambda>s. take (nat (batch_size self))
                    (drop s (fst (shuffle k g [0..<length (obs_tensor t)])))) starts)"
  using assms
proof (induction n arbitrary: self rng mss)
  case 0
  then show ?case by simp
next
  case (Suc n)
  from Suc.prems obtain idx_arr rng1 starts s1 ms mss1 where
    sh: "shuffle k rng [0..<length (obs_tensor t)] = (idx_arr, rng1)"
    and pr: "py_range (length idx_arr) (batch_size self) = Inr starts"
    and lp: "sgd_loop k t idx_arr starts self = Inr (s1, ms)"
    and ep: "epoch_loop k t n s1 rng1 = Inr (self', rng', mss1)" and mss: "mss = ms # mss1"
    by (rule epoch_loop_cases)
  from sgd_loop_idx [OF lp] have
    idx: "map sgd_idx_arr ms = map (\<lambda>s. take (nat (batch_size self)) (drop s idx_arr)) starts"
    and bs: "batch_size s1 = batch_size self" by simp_all
  have here: "\<exists>g starts.
       py_range (length (fst (shuffle k g [0..<length (obs_tensor t)]))) (batch_size self)
         = Inr starts \<and>
       map sgd_idx_arr ms =
         map (\<lambda>s. take (nat (batch_size self))
                    (drop s (fst (shuffle k g [0..<length (obs_tensor t)])))) starts"
    using sh pr idx by (intro exI [of _ rng] exI [of _ starts]) simp
  from Suc.IH [OF ep] bs here mss show ?case by simp
qed

lemma train_InrD:
  assumes "train k self b rng = Inr (self', b', rng', mss)"
  obtains obs next_obs acts dns rews probs adv where
    "observations b = Some obs" "next_observations b = Some next_obs"
    "actions b = Some acts" "dones b = Some dns" "rewards b = Some rews"
    "aligned obs next_obs acts dns rews"
    "gather (map (policy_forward k (policy_net self)) obs) acts = Inr probs"
    "compute_advantage (gamma self) (lamda self)
       (b\<lparr>td_delta := Some (map (\<lambda>(a, b). fsub a b)
          (zip (td_target_of k (gamma self) (value_net self) next_obs dns rews)
               (map (value_forward k (value_net self)) obs)))\<rparr>) = Inr b'"
    "advantages b' = Some adv"
    "epoch_loop k
       \<lparr>obs_tensor = obs, next_obs_tensor = next_obs, action_tensor = acts, done_tensor = dns,
        reward_tensor = rews, old_log_prob = map flog probs, advantage_tensor = adv\<rparr>
       (nat (n_epoch self)) self rng = Inr (self', rng', mss)"
  using assms
  by (auto simp: train_def Let_def split: option.splits sum.splits if_splits prod.splits)

lemma range_from_go:
  "0 < step \<Longrightarrow> i < stop \<Longrightarrow> range_from step stop i = i # range_from step stop (i + step)"
  by (subst range_from.simps) simp

lemma range_from_stop: "\<not> i < stop \<Longrightarrow> range_from step stop i = []"
  by (subst range_from.simps) simp

lemma gather_InrD:
  assumes "gather logit action = Inr probs" and "length logit = length action"
  shows "length probs = length action"
    and "\<And>i. i < length action \<Longrightarrow> probs ! i = logit ! i ! (action ! i)"
    and "\<And>i. i < length action \<Longrightarrow> action ! i < length (logit ! i)"
proof -
  from assms(1) have p: "probs = map (\<lambda>(row, a). row ! a) (zip logit action)"
    and ok: "list_all (\<lambda>(row, a). a < length row) (zip logit action)"
    by (auto simp: gather_def split: if_splits)
  show "length probs = length action" using p assms(2) by simp
  show "probs ! i = logit ! i ! (action ! i)" if "i < length action" for i
    using p assms(2) that by simp
  show "action ! i < length (logit ! i)" if "i < length action" for i
  proof -
    have "(logit ! i, action ! i) \<in> set (zip logit action)"
      using that assms(2) by (metis length_zip min.idem nth_mem nth_zip)
    with ok show ?thesis by (auto simp: list_all_iff)
  qed
qed

text \<open>The run of the examples: three transitions, minibatches of two, one epoch.\<close>

lemma toy_run:
  "train toy (toy_agent 2 0) (toy_buffer [0, 0, 0]) ()
   = Inr (toy_agent 2 2,
          (toy_buffer [0, 0, 0])
            \<lparr>td_delta := Some [Fin 1, Fin 1, Fin 1],
             advantages := Some [Fin (3 / 2), Fin 1, Fin (1 / 2)]\<rparr>,
          (),
          [[\<lparr>sgd_idx_arr = [2, 1], sgd_old_log_prob = [Fin 0, Fin 0], ratio = [Fin 1, Fin 1],
             td_target = [Fin 1, Fin 1], policy_loss = Fin (- (3 / 4)), value_loss = Fin 1,
             self_before = toy_agent 2 0, self_after = toy_agent 2 1\<rparr>,
            \<lparr>sgd_idx_arr = [0], sgd_old_log_prob = [Fin 0], ratio = [Fin 0],
             td_target = [Fin (3 / 2)], policy_loss = Fin 0, value_loss = Fin (1 / 4),
             self_before = toy_agent 2 1, self_after = toy_agent 2 2\<rparr>]])"
  by (simp add: train_def toy_def toy_agent_def toy_buffer_def aligned_def gather_def
      policy_call_def value_call_def
      td_target_of_def masked_next_value_def
      compute_advantage_def Let_def py_range_def range_from_go range_from_stop sgd_step_def
      rows_def ratio_of_def policy_loss_fn_def policy_loss_of_def value_loss_fn_def
      mse_loss_def fmean_def fsum_def fsub_def fclamp_def fmin_def fmax_def)

section \<open>The advantage recursion\<close>

text \<open>
  C1 fails on the code. Generalized advantage estimation decays the running value:
  with \<^verbatim>\<open>gl = gamma*lamda\<close>, \<^verbatim>\<open>dones = [False, False, True]\<close> and
  \<^verbatim>\<open>td_delta = [d0, d1, d2]\<close>, C1 states \<^verbatim>\<open>advantages[1] = gl*d1 + gl^2*d2\<close> and
  \<^verbatim>\<open>advantages[0] = gl*d0 + gl^2*d1 + gl^3*d2\<close>. Line 116 adds \<^verbatim>\<open>gl*td_delta[t]\<close> to a
  running value that it never multiplies by \<^verbatim>\<open>gl\<close>, so that \<^verbatim>\<open>compute_advantage\<close> stores
  \<^verbatim>\<open>gl*d1 + gl*d2\<close> and \<^verbatim>\<open>gl*d0 + gl*d1 + gl*d2\<close>. With \<^verbatim>\<open>gamma = 1/2\<close>,
  \<^verbatim>\<open>lamda = 1\<close> and \<^verbatim>\<open>td_delta = [0, 0, 1]\<close> it stores \<^verbatim>\<open>[1/2, 1/2, 1/2]\<close>, where C1
  states \<^verbatim>\<open>[1/8, 1/4, 1/2]\<close>.
\<close>

theorem gae_recursion_not_decayed:
  "compute_advantage g l (b\<lparr>dones := Some [False, False, True], td_delta := Some [d0, d1, d2]\<rparr>)
     = Inr (b\<lparr>dones := Some [False, False, True], td_delta := Some [d0, d1, d2],
              advantages := Some
                [fadd (fmul (Fin (g * l)) d0) (fadd (fmul (Fin (g * l)) d1) (fmul (Fin (g * l)) d2)),
                 fadd (fmul (Fin (g * l)) d1) (fmul (Fin (g * l)) d2),
                 fmul (Fin (g * l)) d2]\<rparr>)
   \<and> compute_advantage (1 / 2) 1
       (\<lparr>observations = None, next_observations = None, actions = None, rewards = None,
         dones = Some [False, False, True], td_delta = Some [Fin 0, Fin 0, Fin 1],
         advantages = None\<rparr> :: unit buffer)
     = Inr \<lparr>observations = None, next_observations = None, actions = None, rewards = None,
            dones = Some [False, False, True], td_delta = Some [Fin 0, Fin 0, Fin 1],
            advantages = Some [Fin (1 / 2), Fin (1 / 2), Fin (1 / 2)]\<rparr>
   \<and> [Fin (1 / 2), Fin (1 / 2), Fin (1 / 2)]
       \<noteq> [Fin (1 / 2 * 1 * 0 + (1 / 2 * 1)\<^sup>2 * 0 + (1 / 2 * 1) ^ 3 * 1),
            Fin (1 / 2 * 1 * 0 + (1 / 2 * 1)\<^sup>2 * 1),
            Fin (1 / 2 * 1 * 1)]"
proof (intro conjI)
  let ?b = "b\<lparr>dones := Some [False, False, True], td_delta := Some [d0, d1, d2]\<rparr>"
  have c: "compute_advantage g l ?b
          = Inr (?b\<lparr>advantages := Some (adv_list g l [False, False, True] [d0, d1, d2])\<rparr>)"
    by (rule compute_advantage_eq) simp_all
  have eq: "adv_list g l [False, False, True] [d0, d1, d2] =
      [fadd (fmul (Fin (g * l)) d0) (fadd (fmul (Fin (g * l)) d1) (fmul (Fin (g * l)) d2)),
       fadd (fmul (Fin (g * l)) d1) (fmul (Fin (g * l)) d2),
       fmul (Fin (g * l)) d2]"
    by (simp add: Let_def fadd_zero_left fadd_commute fadd_assoc)
  show "compute_advantage g l ?b
     = Inr (b\<lparr>dones := Some [False, False, True], td_delta := Some [d0, d1, d2],
              advantages := Some
                [fadd (fmul (Fin (g * l)) d0) (fadd (fmul (Fin (g * l)) d1) (fmul (Fin (g * l)) d2)),
                 fadd (fmul (Fin (g * l)) d1) (fmul (Fin (g * l)) d2),
                 fmul (Fin (g * l)) d2]\<rparr>)"
    using c by (simp only: eq)
next
  show "compute_advantage (1 / 2) 1
       (\<lparr>observations = None, next_observations = None, actions = None, rewards = None,
         dones = Some [False, False, True], td_delta = Some [Fin 0, Fin 0, Fin 1],
         advantages = None\<rparr> :: unit buffer)
     = Inr \<lparr>observations = None, next_observations = None, actions = None, rewards = None,
            dones = Some [False, False, True], td_delta = Some [Fin 0, Fin 0, Fin 1],
            advantages = Some [Fin (1 / 2), Fin (1 / 2), Fin (1 / 2)]\<rparr>"
    by (simp add: compute_advantage_def Let_def numeral_3_eq_3)
next
  show "[Fin (1 / 2), Fin (1 / 2), Fin (1 / 2)]
       \<noteq> [Fin (1 / 2 * 1 * 0 + (1 / 2 * 1)\<^sup>2 * 0 + (1 / 2 * 1) ^ 3 * 1),
            Fin (1 / 2 * 1 * 0 + (1 / 2 * 1)\<^sup>2 * 1),
            Fin (1 / 2 * 1 * 1)]"
    by (simp add: power2_eq_square)
qed

section \<open>Episode boundaries\<close>

text \<open>
  C2. When \<^verbatim>\<open>dones[k]\<close> is true the running value is reset at row \<open>k\<close>: the advantages
  of the whole buffer are those of the rows up to \<open>k\<close>, computed on their own, followed by
  those of the rows after \<open>k\<close>, computed on their own; and the advantages of the rows up
  to \<open>k\<close> stay the same whatever \<^verbatim>\<open>td_delta\<close> holds after row \<open>k\<close>.
\<close>

theorem episode_boundary_reset:
  assumes "dones b = Some dn" and "td_delta b = Some td" and "length dn = length td"
    and "k < length td" and "dn ! k"
  shows "\<exists>a1 a2.
      compute_advantage g l
          (b\<lparr>dones := Some (take (Suc k) dn), td_delta := Some (take (Suc k) td)\<rparr>)
        = Inr (b\<lparr>dones := Some (take (Suc k) dn), td_delta := Some (take (Suc k) td),
                 advantages := Some a1\<rparr>)
    \<and> compute_advantage g l
          (b\<lparr>dones := Some (drop (Suc k) dn), td_delta := Some (drop (Suc k) td)\<rparr>)
        = Inr (b\<lparr>dones := Some (drop (Suc k) dn), td_delta := Some (drop (Suc k) td),
                 advantages := Some a2\<rparr>)
    \<and> compute_advantage g l b = Inr (b\<lparr>advantages := Some (a1 @ a2)\<rparr>)
    \<and> length a1 = Suc k
    \<and> (\<forall>td'. length td' = length td \<and> take (Suc k) td' = take (Suc k) td \<longrightarrow>
          (\<exists>a2'. compute_advantage g l (b\<lparr>td_delta := Some td'\<rparr>)
                    = Inr (b\<lparr>td_delta := Some td', advantages := Some (a1 @ a2')\<rparr>)))"
proof -
  let ?a1 = "adv_list g l (take (Suc k) dn) (take (Suc k) td)"
  let ?a2 = "adv_list g l (drop (Suc k) dn) (drop (Suc k) td)"
  have 1: "compute_advantage g l
          (b\<lparr>dones := Some (take (Suc k) dn), td_delta := Some (take (Suc k) td)\<rparr>)
        = Inr (b\<lparr>dones := Some (take (Suc k) dn), td_delta := Some (take (Suc k) td),
                 advantages := Some ?a1\<rparr>)"
    using compute_advantage_eq [of "b\<lparr>dones := Some (take (Suc k) dn),
        td_delta := Some (take (Suc k) td)\<rparr>" "take (Suc k) dn" "take (Suc k) td" g l]
      assms(3) by simp
  have 2: "compute_advantage g l
          (b\<lparr>dones := Some (drop (Suc k) dn), td_delta := Some (drop (Suc k) td)\<rparr>)
        = Inr (b\<lparr>dones := Some (drop (Suc k) dn), td_delta := Some (drop (Suc k) td),
                 advantages := Some ?a2\<rparr>)"
    using compute_advantage_eq [of "b\<lparr>dones := Some (drop (Suc k) dn),
        td_delta := Some (drop (Suc k) td)\<rparr>" "drop (Suc k) dn" "drop (Suc k) td" g l]
      assms(3) by simp
  have 3: "compute_advantage g l b = Inr (b\<lparr>advantages := Some (?a1 @ ?a2)\<rparr>)"
    using compute_advantage_eq [OF assms(1,2), of g l] assms(3)
      adv_list_split [OF assms(3,4,5), of g l] by simp
  have 4: "length ?a1 = Suc k"
    using assms(3,4) by (simp add: length_adv_list)
  have 5: "\<exists>a2'. compute_advantage g l (b\<lparr>td_delta := Some td'\<rparr>)
                    = Inr (b\<lparr>td_delta := Some td', advantages := Some (?a1 @ a2')\<rparr>)"
    if h: "length td' = length td \<and> take (Suc k) td' = take (Suc k) td" for td'
  proof -
    have "compute_advantage g l (b\<lparr>td_delta := Some td'\<rparr>)
            = Inr (b\<lparr>td_delta := Some td', advantages := Some (adv_list g l dn td')\<rparr>)"
      using compute_advantage_eq [of "b\<lparr>td_delta := Some td'\<rparr>" dn td' g l] assms(1,3) h
      by simp
    moreover have "adv_list g l dn td' =
           adv_list g l (take (Suc k) dn) (take (Suc k) td') @
           adv_list g l (drop (Suc k) dn) (drop (Suc k) td')"
      by (rule adv_list_split) (use assms(3,4,5) h in simp_all)
    ultimately show ?thesis using h by auto
  qed
  from 1 2 3 4 5 show ?thesis by blast
qed

theorem episode_boundary_reset_witness:
  "compute_advantage (1 / 2) 1
     (\<lparr>observations = None, next_observations = None, actions = None, rewards = None,
       dones = Some [False, True], td_delta = Some [Fin 1, Fin 2],
       advantages = None\<rparr> :: unit buffer)
     = Inr \<lparr>observations = None, next_observations = None, actions = None, rewards = None,
            dones = Some [False, True], td_delta = Some [Fin 1, Fin 2],
            advantages = Some [Fin (3 / 2), Fin 1]\<rparr>
   \<and> compute_advantage (1 / 2) 1
     (\<lparr>observations = None, next_observations = None, actions = None, rewards = None,
       dones = Some [False, True], td_delta = Some [Fin 3, Fin 4],
       advantages = None\<rparr> :: unit buffer)
     = Inr \<lparr>observations = None, next_observations = None, actions = None, rewards = None,
            dones = Some [False, True], td_delta = Some [Fin 3, Fin 4],
            advantages = Some [Fin (7 / 2), Fin 2]\<rparr>
   \<and> compute_advantage (1 / 2) 1
     (\<lparr>observations = None, next_observations = None, actions = None, rewards = None,
       dones = Some [False, True, False, True], td_delta = Some [Fin 1, Fin 2, Fin 3, Fin 4],
       advantages = None\<rparr> :: unit buffer)
     = Inr \<lparr>observations = None, next_observations = None, actions = None, rewards = None,
            dones = Some [False, True, False, True],
            td_delta = Some [Fin 1, Fin 2, Fin 3, Fin 4],
            advantages = Some ([Fin (3 / 2), Fin 1] @ [Fin (7 / 2), Fin 2])\<rparr>"
proof -
  let ?b = "\<lparr>observations = None, next_observations = None, actions = None, rewards = None,
       dones = Some [False, True, False, True], td_delta = Some [Fin 1, Fin 2, Fin 3, Fin 4],
       advantages = None\<rparr> :: unit buffer"
  have "\<exists>a1 a2.
      compute_advantage (1 / 2) 1
          (?b\<lparr>dones := Some (take (Suc 1) [False, True, False, True]),
               td_delta := Some (take (Suc 1) [Fin 1, Fin 2, Fin 3, Fin 4])\<rparr>)
        = Inr (?b\<lparr>dones := Some (take (Suc 1) [False, True, False, True]),
                 td_delta := Some (take (Suc 1) [Fin 1, Fin 2, Fin 3, Fin 4]),
                 advantages := Some a1\<rparr>)
    \<and> compute_advantage (1 / 2) 1
          (?b\<lparr>dones := Some (drop (Suc 1) [False, True, False, True]),
               td_delta := Some (drop (Suc 1) [Fin 1, Fin 2, Fin 3, Fin 4])\<rparr>)
        = Inr (?b\<lparr>dones := Some (drop (Suc 1) [False, True, False, True]),
                 td_delta := Some (drop (Suc 1) [Fin 1, Fin 2, Fin 3, Fin 4]),
                 advantages := Some a2\<rparr>)
    \<and> compute_advantage (1 / 2) 1 ?b = Inr (?b\<lparr>advantages := Some (a1 @ a2)\<rparr>)
    \<and> length a1 = Suc 1
    \<and> (\<forall>td'. length td' = length [Fin 1, Fin 2, Fin 3, Fin (4::real)] \<and>
              take (Suc 1) td' = take (Suc 1) [Fin 1, Fin 2, Fin 3, Fin 4] \<longrightarrow>
          (\<exists>a2'. compute_advantage (1 / 2) 1 (?b\<lparr>td_delta := Some td'\<rparr>)
                    = Inr (?b\<lparr>td_delta := Some td', advantages := Some (a1 @ a2')\<rparr>)))"
    by (rule episode_boundary_reset) simp_all
  then obtain a1 a2 where
    1: "compute_advantage (1 / 2) 1
          (\<lparr>observations = None, next_observations = None, actions = None, rewards = None,
            dones = Some [False, True], td_delta = Some [Fin 1, Fin 2],
            advantages = None\<rparr> :: unit buffer)
        = Inr \<lparr>observations = None, next_observations = None, actions = None, rewards = None,
            dones = Some [False, True], td_delta = Some [Fin 1, Fin 2],
            advantages = Some a1\<rparr>"
    and 2: "compute_advantage (1 / 2) 1
          (\<lparr>observations = None, next_observations = None, actions = None, rewards = None,
            dones = Some [False, True], td_delta = Some [Fin 3, Fin 4],
            advantages = None\<rparr> :: unit buffer)
        = Inr \<lparr>observations = None, next_observations = None, actions = None, rewards = None,
            dones = Some [False, True], td_delta = Some [Fin 3, Fin 4],
            advantages = Some a2\<rparr>"
    and 3: "compute_advantage (1 / 2) 1 ?b = Inr (?b\<lparr>advantages := Some (a1 @ a2)\<rparr>)"
    by auto
  have "a1 = [Fin (3 / 2), Fin 1]"
    using 1 by (simp add: compute_advantage_def Let_def numeral_2_eq_2)
  moreover have "a2 = [Fin (7 / 2), Fin 2]"
    using 2 by (simp add: compute_advantage_def Let_def numeral_2_eq_2)
  ultimately show ?thesis using 1 2 3 by simp
qed

section \<open>What compute_advantage reads and writes\<close>

text \<open>
  C10. \<^verbatim>\<open>compute_advantage\<close> reads only the keys \<^verbatim>\<open>dones\<close> and \<^verbatim>\<open>td_delta\<close>: on two
  buffers that agree on them it fails alike or stores the same advantages. When it
  returns, the buffer differs from the one it was given in \<^verbatim>\<open>advantages\<close> alone, which
  has the length of \<^verbatim>\<open>td_delta\<close>; and a second call on the result changes nothing.
\<close>

theorem compute_advantage_frame:
  "(dones b1 = dones b2 \<and> td_delta b1 = td_delta b2 \<longrightarrow>
      map_sum id advantages (compute_advantage g l b1)
        = map_sum id advantages (compute_advantage g l b2))
   \<and> (\<forall>b'. compute_advantage g l b = Inr b' \<longrightarrow>
          (\<exists>td adv. td_delta b = Some td \<and> length adv = length td \<and>
                     b' = b\<lparr>advantages := Some adv\<rparr>) \<and>
          compute_advantage g l b' = Inr b')"
proof (intro conjI allI impI)
  assume "dones b1 = dones b2 \<and> td_delta b1 = td_delta b2"
  then show "map_sum id advantages (compute_advantage g l b1)
        = map_sum id advantages (compute_advantage g l b2)"
    by (simp add: compute_advantage_def split: option.splits sum.splits)
next
  fix b' assume a: "compute_advantage g l b = Inr b'"
  from compute_advantage_InrD [OF a]
  show "\<exists>td adv. td_delta b = Some td \<and> length adv = length td \<and>
                     b' = b\<lparr>advantages := Some adv\<rparr>"
    by blast
next
  fix b' assume a: "compute_advantage g l b = Inr b'"
  from compute_advantage_InrD [OF a] obtain dn td adv where
    h: "dones b = Some dn" "td_delta b = Some td"
       "advantage_loop g l dn td (length td) (Fin 0) (replicate (length td) (Fin 0)) = Inr adv"
       "b' = b\<lparr>advantages := Some adv\<rparr>"
    by blast
  then show "compute_advantage g l b' = Inr b'"
    by (simp add: compute_advantage_def)
qed

theorem compute_advantage_frame_witness:
  "map_sum id advantages
     (compute_advantage (1 / 2) 1
        (\<lparr>observations = None, next_observations = None, actions = None, rewards = None,
          dones = Some [False, True], td_delta = Some [Fin 1, Fin 2],
          advantages = None\<rparr> :: unit buffer))
   = map_sum id advantages
     (compute_advantage (1 / 2) 1
        (\<lparr>observations = Some [(), ()], next_observations = Some [(), ()],
          actions = Some [0, 1], rewards = Some [Fin 1, Fin 1],
          dones = Some [False, True], td_delta = Some [Fin 1, Fin 2],
          advantages = Some [NaN]\<rparr> :: unit buffer))
   \<and> compute_advantage (1 / 2) 1
        (\<lparr>observations = Some [(), ()], next_observations = Some [(), ()],
          actions = Some [0, 1], rewards = Some [Fin 1, Fin 1],
          dones = Some [False, True], td_delta = Some [Fin 1, Fin 2],
          advantages = Some [NaN]\<rparr> :: unit buffer)
      = Inr \<lparr>observations = Some [(), ()], next_observations = Some [(), ()],
          actions = Some [0, 1], rewards = Some [Fin 1, Fin 1],
          dones = Some [False, True], td_delta = Some [Fin 1, Fin 2],
          advantages = Some [Fin (3 / 2), Fin 1]\<rparr>
   \<and> compute_advantage (1 / 2) 1
        (\<lparr>observations = Some [(), ()], next_observations = Some [(), ()],
          actions = Some [0, 1], rewards = Some [Fin 1, Fin 1],
          dones = Some [False, True], td_delta = Some [Fin 1, Fin 2],
          advantages = Some [Fin (3 / 2), Fin 1]\<rparr> :: unit buffer)
      = Inr \<lparr>observations = Some [(), ()], next_observations = Some [(), ()],
          actions = Some [0, 1], rewards = Some [Fin 1, Fin 1],
          dones = Some [False, True], td_delta = Some [Fin 1, Fin 2],
          advantages = Some [Fin (3 / 2), Fin 1]\<rparr>"
proof -
  let ?b1 = "\<lparr>observations = None, next_observations = None, actions = None, rewards = None,
          dones = Some [False, True], td_delta = Some [Fin 1, Fin 2],
          advantages = None\<rparr> :: unit buffer"
  let ?b2 = "\<lparr>observations = Some [(), ()], next_observations = Some [(), ()],
          actions = Some [0, 1], rewards = Some [Fin 1, Fin 1],
          dones = Some [False, True], td_delta = Some [Fin 1, Fin 2],
          advantages = Some [NaN]\<rparr> :: unit buffer"
  let ?b3 = "\<lparr>observations = Some [(), ()], next_observations = Some [(), ()],
          actions = Some [0, 1], rewards = Some [Fin 1, Fin 1],
          dones = Some [False, True], td_delta = Some [Fin 1, Fin 2],
          advantages = Some [Fin (3 / 2), Fin 1]\<rparr> :: unit buffer"
  note inst = compute_advantage_frame [of ?b1 ?b2 "1 / 2" 1 ?b2]
  have r: "compute_advantage (1 / 2) 1 ?b2 = Inr ?b3"
    by (simp add: compute_advantage_def Let_def numeral_2_eq_2)
  have "map_sum id advantages (compute_advantage (1 / 2) 1 ?b1)
        = map_sum id advantages (compute_advantage (1 / 2) 1 ?b2)"
    using inst [THEN conjunct1] by simp
  moreover have "compute_advantage (1 / 2) 1 ?b3 = Inr ?b3"
    using inst [THEN conjunct2, rule_format, OF r] by blast
  ultimately show ?thesis using r by blast
qed

section \<open>The snapshot of the old log-probabilities\<close>

text \<open>
  C6. In a run of \<^verbatim>\<open>train\<close> that returns, every minibatch of every epoch uses as
  \<^verbatim>\<open>sgd_old_log_prob\<close> the rows of one array: the logarithm of the probability that the
  policy, with the parameters it had when \<^verbatim>\<open>train\<close> was called, gives to the stored
  action. The ratio of a minibatch is computed from that constant and from the parameters the
  policy has when the minibatch begins, and the gradient step of the policy is given the loss
  as a function of the parameters in which \<^verbatim>\<open>sgd_old_log_prob\<close> and the advantages are
  constants. The minibatches run one after the other, each from the agent the one before left.
\<close>

theorem old_log_prob_frozen:
  assumes "train k self buffer_dict rng = Inr (self', buffer', rng', mss)"
  shows "\<exists>obs acts adv.
      observations buffer_dict = Some obs \<and> actions buffer_dict = Some acts \<and>
      advantages buffer' = Some adv \<and> linked self (concat mss) self' \<and>
      (\<forall>ms\<in>set mss. \<forall>m\<in>set ms.
         sgd_old_log_prob m =
           map (\<lambda>i. flog (policy_forward k (policy_net self) (obs ! i) ! (acts ! i)))
             (sgd_idx_arr m) \<and>
         ratio_of k (map (\<lambda>i. obs ! i) (sgd_idx_arr m)) (map (\<lambda>i. acts ! i) (sgd_idx_arr m))
             (sgd_old_log_prob m) (policy_net (self_before m)) = Inr (ratio m) \<and>
         (policy_net_optimizer (self_after m), policy_net (self_after m)) =
           policy_backward_step k
             (policy_loss_fn k (epsilon self) (map (\<lambda>i. obs ! i) (sgd_idx_arr m))
                (map (\<lambda>i. acts ! i) (sgd_idx_arr m)) (sgd_old_log_prob m)
                (map (\<lambda>i. adv ! i) (sgd_idx_arr m)))
             (policy_net_optimizer (self_before m)) (policy_net (self_before m)))"
proof -
  from assms obtain obs next_obs acts dns rews probs adv where
    o: "observations buffer_dict = Some obs" and a: "actions buffer_dict = Some acts"
    and al: "aligned obs next_obs acts dns rews"
    and g: "gather (map (policy_forward k (policy_net self)) obs) acts = Inr probs"
    and adv: "advantages buffer' = Some adv"
    and ep: "epoch_loop k
       \<lparr>obs_tensor = obs, next_obs_tensor = next_obs, action_tensor = acts, done_tensor = dns,
        reward_tensor = rews, old_log_prob = map flog probs, advantage_tensor = adv\<rparr>
       (nat (n_epoch self)) self rng = Inr (self', rng', mss)"
    by (rule train_InrD)
  let ?t = "\<lparr>obs_tensor = obs, next_obs_tensor = next_obs, action_tensor = acts,
        done_tensor = dns, reward_tensor = rews, old_log_prob = map flog probs,
        advantage_tensor = adv\<rparr>"
  let ?P = "\<lambda>m. sgd_old_log_prob m =
           map (\<lambda>i. flog (policy_forward k (policy_net self) (obs ! i) ! (acts ! i)))
             (sgd_idx_arr m) \<and>
         ratio_of k (map (\<lambda>i. obs ! i) (sgd_idx_arr m)) (map (\<lambda>i. acts ! i) (sgd_idx_arr m))
             (sgd_old_log_prob m) (policy_net (self_before m)) = Inr (ratio m) \<and>
         (policy_net_optimizer (self_after m), policy_net (self_after m)) =
           policy_backward_step k
             (policy_loss_fn k (epsilon self) (map (\<lambda>i. obs ! i) (sgd_idx_arr m))
                (map (\<lambda>i. acts ! i) (sgd_idx_arr m)) (sgd_old_log_prob m)
                (map (\<lambda>i. adv ! i) (sgd_idx_arr m)))
             (policy_net_optimizer (self_before m)) (policy_net (self_before m))"
  have len: "length acts = length obs" using al by (simp add: aligned_def)
  have lp: "length probs = length acts"
    by (rule gather_InrD(1) [OF g]) (simp add: len)
  have old: "map flog probs ! i = flog (policy_forward k (policy_net self) (obs ! i) ! (acts ! i))"
    if "i < length obs" for i
    using gather_InrD(2) [OF g, of i] that len lp by simp
  have step: "?P m \<and> epsilon s1 = epsilon self"
    if q: "epsilon s = epsilon self" and st: "sgd_step k ?t idx s = Inr (s1, m)"
    for idx s s1 m
  proof -
    from sgd_step_InrD [OF st] obtain r where
      r: "ratio_of k (map (\<lambda>i. obs ! i) idx) (map (\<lambda>i. acts ! i) idx)
            (map (\<lambda>i. map flog probs ! i) idx) (policy_net s) = Inr r"
      and m: "sgd_idx_arr m = idx" "sgd_old_log_prob m = map (\<lambda>i. map flog probs ! i) idx"
        "ratio m = r" "self_before m = s" "self_after m = s1"
      by auto
    from sgd_step_in_range [OF st] have rng: "\<forall>i\<in>set idx. i < length obs" by simp
    have 1: "map (\<lambda>i. map flog probs ! i) idx =
        map (\<lambda>i. flog (policy_forward k (policy_net self) (obs ! i) ! (acts ! i))) idx"
      using rng old by simp
    have 3: "(policy_net_optimizer s1, policy_net s1) =
           policy_backward_step k
             (policy_loss_fn k (epsilon s) (map (\<lambda>i. obs ! i) idx)
                (map (\<lambda>i. acts ! i) idx) (map (\<lambda>i. map flog probs ! i) idx)
                (map (\<lambda>i. adv ! i) idx))
             (policy_net_optimizer s) (policy_net s)"
      using sgd_step_after(1) [OF st] by simp
    have e: "epsilon s1 = epsilon self" using sgd_step_after(5) [OF st] q by simp
    note r' = r [unfolded 1] and m2 = m(2) [unfolded 1] and 3 = 3 [unfolded 1 q]
    show ?thesis
      unfolding m(1) m(3) m(4) m(5) m2
      using r' 3 e by blast
  qed
  have "epsilon self' = epsilon self \<and> (\<forall>ms\<in>set mss. \<forall>m\<in>set ms. ?P m)"
  proof (rule epoch_loop_invariant [where Q = "\<lambda>s. epsilon s = epsilon self" and P = ?P, OF ep])
    show "epsilon self = epsilon self" ..
  next
    fix idx s s1 m
    assume "epsilon s = epsilon self" and "sgd_step k ?t idx s = Inr (s1, m)"
    then show "?P m \<and> epsilon s1 = epsilon self" by (rule step)
  qed
  then have "\<forall>ms\<in>set mss. \<forall>m\<in>set ms. ?P m" ..
  moreover from epoch_loop_linked [OF ep] have "linked self (concat mss) self'" by simp
  ultimately show ?thesis using o a adv by blast
qed

theorem old_log_prob_frozen_witness:
  "\<exists>self' buffer' rng' m1 m2.
      train toy (toy_agent 2 0) (toy_buffer [0, 0, 0]) () = Inr (self', buffer', rng', [[m1, m2]]) \<and>
      policy_net (toy_agent 2 0) = 0 \<and> policy_net (self_before m2) = 1 \<and>
      sgd_idx_arr m2 = [0] \<and>
      sgd_old_log_prob m2 = [flog (policy_forward toy 0 0 ! 0)] \<and>
      flog (policy_forward toy 0 0 ! 0) = Fin 0 \<and>
      flog (policy_forward toy 1 0 ! 0) = NInf"
proof -
  let ?m2 = "\<lparr>sgd_idx_arr = [0], sgd_old_log_prob = [Fin 0], ratio = [Fin 0],
             td_target = [Fin (3 / 2)], policy_loss = Fin 0, value_loss = Fin (1 / 4),
             self_before = toy_agent 2 1, self_after = toy_agent 2 2\<rparr>"
  from old_log_prob_frozen [OF toy_run] obtain obs acts where
    o: "observations (toy_buffer [0, 0, 0]) = Some obs"
    and a: "actions (toy_buffer [0, 0, 0]) = Some acts"
    and m: "sgd_old_log_prob ?m2 =
           map (\<lambda>i. flog (policy_forward toy (policy_net (toy_agent 2 0)) (obs ! i) ! (acts ! i)))
             (sgd_idx_arr ?m2)"
    by auto
  have "obs = [0, 1, 2]" and "acts = [0, 0, 0]"
    using o a by (simp_all add: toy_buffer_def)
  with m have "sgd_old_log_prob ?m2 = [flog (policy_forward toy 0 0 ! 0)]"
    by (simp add: toy_agent_def)
  moreover have "flog (policy_forward toy 0 0 ! 0) = Fin 0"
    and "flog (policy_forward toy 1 0 ! 0) = NInf"
    by (simp_all add: toy_def)
  moreover have "policy_net (toy_agent 2 0) = 0" and "policy_net (self_before ?m2) = 1"
    and "sgd_idx_arr ?m2 = [0]"
    by (simp_all add: toy_agent_def)
  ultimately show ?thesis using toy_run by blast
qed

section \<open>The target of the value loss\<close>

text \<open>
  C7. In a run of \<^verbatim>\<open>train\<close> that returns, every minibatch of every epoch computes
  \<^verbatim>\<open>td_target\<close> from the parameters the value network has when the minibatch begins:
  row by row it is \<^verbatim>\<open>reward + gamma * (value_net(next_obs) * (1 - done))\<close>, so that at a
  terminal step the value of the next observation is multiplied by zero. The value loss is
  the mean squared error of \<^verbatim>\<open>value_net(obs)\<close>, under the same parameters, against that
  target, and the gradient step of the value network is given the loss as a function of the
  parameters, which enter both. The \<^verbatim>\<open>td_delta\<close> stored in the buffer is the one computed
  before the loops, from the parameters \<^verbatim>\<open>train\<close> was called with.
\<close>

theorem td_target_recomputed:
  assumes "train k self buffer_dict rng = Inr (self', buffer', rng', mss)"
  shows "\<exists>obs next_obs dns rews.
      observations buffer_dict = Some obs \<and> next_observations buffer_dict = Some next_obs \<and>
      dones buffer_dict = Some dns \<and> rewards buffer_dict = Some rews \<and>
      linked self (concat mss) self' \<and>
      td_delta buffer' =
        Some (map (\<lambda>(a, b). fsub a b)
               (zip (td_target_of k (gamma self) (value_net self) next_obs dns rews)
                    (map (value_forward k (value_net self)) obs))) \<and>
      (\<forall>ms\<in>set mss. \<forall>m\<in>set ms.
         td_target m =
           map (\<lambda>i. fadd (rews ! i)
                      (fmul (Fin (gamma self))
                         (fmul (value_forward k (value_net (self_before m)) (next_obs ! i))
                               (Fin (1 - (if dns ! i then 1 else 0))))))
             (sgd_idx_arr m) \<and>
         value_loss m =
           mse_loss (map (\<lambda>i. value_forward k (value_net (self_before m)) (obs ! i))
                       (sgd_idx_arr m))
                    (td_target m) \<and>
         (value_net_optimizer (self_after m), value_net (self_after m)) =
           value_backward_step k
             (value_loss_fn k (gamma self) (map (\<lambda>i. obs ! i) (sgd_idx_arr m))
                (map (\<lambda>i. next_obs ! i) (sgd_idx_arr m)) (map (\<lambda>i. dns ! i) (sgd_idx_arr m))
                (map (\<lambda>i. rews ! i) (sgd_idx_arr m)))
             (value_net_optimizer (self_before m)) (value_net (self_before m)))"
proof -
  from assms obtain obs next_obs acts dns rews probs adv where
    o: "observations buffer_dict = Some obs"
    and no: "next_observations buffer_dict = Some next_obs"
    and d: "dones buffer_dict = Some dns" and r: "rewards buffer_dict = Some rews"
    and ca: "compute_advantage (gamma self) (lamda self)
       (buffer_dict\<lparr>td_delta := Some (map (\<lambda>(a, b). fsub a b)
          (zip (td_target_of k (gamma self) (value_net self) next_obs dns rews)
               (map (value_forward k (value_net self)) obs)))\<rparr>) = Inr buffer'"
    and ep: "epoch_loop k
       \<lparr>obs_tensor = obs, next_obs_tensor = next_obs, action_tensor = acts, done_tensor = dns,
        reward_tensor = rews, old_log_prob = map flog probs, advantage_tensor = adv\<rparr>
       (nat (n_epoch self)) self rng = Inr (self', rng', mss)"
    by (rule train_InrD)
  let ?t = "\<lparr>obs_tensor = obs, next_obs_tensor = next_obs, action_tensor = acts,
        done_tensor = dns, reward_tensor = rews, old_log_prob = map flog probs,
        advantage_tensor = adv\<rparr>"
  let ?P = "\<lambda>m. td_target m =
           map (\<lambda>i. fadd (rews ! i)
                      (fmul (Fin (gamma self))
                         (fmul (value_forward k (value_net (self_before m)) (next_obs ! i))
                               (Fin (1 - (if dns ! i then 1 else 0))))))
             (sgd_idx_arr m) \<and>
         value_loss m =
           mse_loss (map (\<lambda>i. value_forward k (value_net (self_before m)) (obs ! i))
                       (sgd_idx_arr m))
                    (td_target m) \<and>
         (value_net_optimizer (self_after m), value_net (self_after m)) =
           value_backward_step k
             (value_loss_fn k (gamma self) (map (\<lambda>i. obs ! i) (sgd_idx_arr m))
                (map (\<lambda>i. next_obs ! i) (sgd_idx_arr m)) (map (\<lambda>i. dns ! i) (sgd_idx_arr m))
                (map (\<lambda>i. rews ! i) (sgd_idx_arr m)))
             (value_net_optimizer (self_before m)) (value_net (self_before m))"
  have target: "td_target_of k g vn (map (\<lambda>i. next_obs ! i) idx) (map (\<lambda>i. dns ! i) idx)
                  (map (\<lambda>i. rews ! i) idx) =
      map (\<lambda>i. fadd (rews ! i)
                 (fmul (Fin g)
                    (fmul (value_forward k vn (next_obs ! i))
                          (Fin (1 - (if dns ! i then 1 else 0)))))) idx"
    for g vn idx
    by (induction idx) (simp_all add: td_target_of_def masked_next_value_def)
  have step: "?P m \<and> gamma s1 = gamma self"
    if q: "gamma s = gamma self" and st: "sgd_step k ?t idx s = Inr (s1, m)"
    for idx s s1 m
  proof -
    from sgd_step_InrD [OF st] have
      m: "sgd_idx_arr m = idx" "self_before m = s" "self_after m = s1"
        "td_target m = td_target_of k (gamma s) (value_net s) (map (\<lambda>i. next_obs ! i) idx)
                         (map (\<lambda>i. dns ! i) idx) (map (\<lambda>i. rews ! i) idx)"
        "value_loss m = value_loss_fn k (gamma s) (map (\<lambda>i. obs ! i) idx)
                          (map (\<lambda>i. next_obs ! i) idx) (map (\<lambda>i. dns ! i) idx)
                          (map (\<lambda>i. rews ! i) idx) (value_net s)"
      by auto
    have 1: "td_target m =
           map (\<lambda>i. fadd (rews ! i)
                      (fmul (Fin (gamma self))
                         (fmul (value_forward k (value_net s) (next_obs ! i))
                               (Fin (1 - (if dns ! i then 1 else 0)))))) idx"
      using m(4) q by (simp only: target)
    have 2: "value_loss m =
           mse_loss (map (\<lambda>i. value_forward k (value_net s) (obs ! i)) idx) (td_target m)"
      unfolding m(4) m(5) by (simp add: value_loss_fn_def comp_def)
    have 3: "(value_net_optimizer s1, value_net s1) =
           value_backward_step k
             (value_loss_fn k (gamma self) (map (\<lambda>i. obs ! i) idx)
                (map (\<lambda>i. next_obs ! i) idx) (map (\<lambda>i. dns ! i) idx)
                (map (\<lambda>i. rews ! i) idx))
             (value_net_optimizer s) (value_net s)"
      using sgd_step_after(2) [OF st] q by simp
    have e: "gamma s1 = gamma self" using sgd_step_after(4) [OF st] q by simp
    show ?thesis
      unfolding m(1) m(2) m(3)
      using 1 2 3 e by blast
  qed
  have "gamma self' = gamma self \<and> (\<forall>ms\<in>set mss. \<forall>m\<in>set ms. ?P m)"
  proof (rule epoch_loop_invariant [where Q = "\<lambda>s. gamma s = gamma self" and P = ?P, OF ep])
    show "gamma self = gamma self" ..
  next
    fix idx s s1 m
    assume "gamma s = gamma self" and "sgd_step k ?t idx s = Inr (s1, m)"
    then show "?P m \<and> gamma s1 = gamma self" by (rule step)
  qed
  then have "\<forall>ms\<in>set mss. \<forall>m\<in>set ms. ?P m" ..
  moreover from epoch_loop_linked [OF ep] have "linked self (concat mss) self'" by simp
  moreover have "td_delta buffer' =
        Some (map (\<lambda>(a, b). fsub a b)
               (zip (td_target_of k (gamma self) (value_net self) next_obs dns rews)
                    (map (value_forward k (value_net self)) obs)))"
    using compute_advantage_InrD [OF ca] by auto
  ultimately show ?thesis using o no d r by blast
qed

theorem td_target_recomputed_witness:
  "\<exists>self' buffer' rng' m1 m2.
      train toy (toy_agent 2 0) (toy_buffer [0, 0, 0]) () = Inr (self', buffer', rng', [[m1, m2]]) \<and>
      value_net (toy_agent 2 0) = 0 \<and> value_net (self_before m2) = 1 \<and>
      sgd_idx_arr m2 = [0] \<and>
      td_target_of toy (1 / 2) 0 [1, 2, 3] [False, False, True] [Fin 1, Fin 1, Fin 1]
        = [Fin 1, Fin 1, Fin 1] \<and>
      td_target m2 = [fadd (Fin 1) (fmul (Fin (1 / 2)) (fmul (value_forward toy 1 1) (Fin 1)))] \<and>
      td_target m2 = [Fin (3 / 2)] \<and>
      sgd_idx_arr m1 = [2, 1] \<and>
      td_target m1 = [fadd (Fin 1) (fmul (Fin (1 / 2)) (fmul (value_forward toy 0 3) (Fin 0))),
                      fadd (Fin 1) (fmul (Fin (1 / 2)) (fmul (value_forward toy 0 2) (Fin 1)))]"
proof -
  let ?m1 = "\<lparr>sgd_idx_arr = [2, 1], sgd_old_log_prob = [Fin 0, Fin 0], ratio = [Fin 1, Fin 1],
             td_target = [Fin 1, Fin 1], policy_loss = Fin (- (3 / 4)), value_loss = Fin 1,
             self_before = toy_agent 2 0, self_after = toy_agent 2 1\<rparr>"
  let ?m2 = "\<lparr>sgd_idx_arr = [0], sgd_old_log_prob = [Fin 0], ratio = [Fin 0],
             td_target = [Fin (3 / 2)], policy_loss = Fin 0, value_loss = Fin (1 / 4),
             self_before = toy_agent 2 1, self_after = toy_agent 2 2\<rparr>"
  from td_target_recomputed [OF toy_run] obtain next_obs dns rews where
    no: "next_observations (toy_buffer [0, 0, 0]) = Some next_obs"
    and d: "dones (toy_buffer [0, 0, 0]) = Some dns"
    and r: "rewards (toy_buffer [0, 0, 0]) = Some rews"
    and m2: "td_target ?m2 =
           map (\<lambda>i. fadd (rews ! i)
                      (fmul (Fin (gamma (toy_agent 2 0)))
                         (fmul (value_forward toy (value_net (self_before ?m2)) (next_obs ! i))
                               (Fin (1 - (if dns ! i then 1 else 0))))))
             (sgd_idx_arr ?m2)"
    and m1: "td_target ?m1 =
           map (\<lambda>i. fadd (rews ! i)
                      (fmul (Fin (gamma (toy_agent 2 0)))
                         (fmul (value_forward toy (value_net (self_before ?m1)) (next_obs ! i))
                               (Fin (1 - (if dns ! i then 1 else 0))))))
             (sgd_idx_arr ?m1)"
    by auto
  have v: "next_obs = [1, 2, 3]" "dns = [False, False, True]" "rews = [Fin 1, Fin 1, Fin 1]"
    using no d r by (simp_all add: toy_buffer_def)
  have a: "td_target ?m2 =
      [fadd (Fin 1) (fmul (Fin (1 / 2)) (fmul (value_forward toy 1 1) (Fin 1)))]"
    using m2 unfolding v by (simp add: toy_agent_def)
  have b: "td_target ?m1 =
      [fadd (Fin 1) (fmul (Fin (1 / 2)) (fmul (value_forward toy 0 3) (Fin 0))),
       fadd (Fin 1) (fmul (Fin (1 / 2)) (fmul (value_forward toy 0 2) (Fin 1)))]"
    using m1 unfolding v by (simp add: toy_agent_def)
  have c: "td_target_of toy (1 / 2) 0 [1, 2, 3] [False, False, True] [Fin 1, Fin 1, Fin 1]
        = [Fin 1, Fin 1, Fin 1]"
    by (simp add: td_target_of_def masked_next_value_def toy_def)
  have e: "value_net (toy_agent 2 0) = 0" "value_net (self_before ?m2) = 1"
    "sgd_idx_arr ?m2 = [0]" "td_target ?m2 = [Fin (3 / 2)]" "sgd_idx_arr ?m1 = [2, 1]"
    by (simp_all add: toy_agent_def)
  show ?thesis
    using toy_run a b c e by blast
qed

section \<open>Construction\<close>

text \<open>
  C4, as amended. \<^verbatim>\<open>__init__\<close> does not look at \<^verbatim>\<open>batch_size\<close>: with any batch size,
  zero and the negative ones too, it fails exactly when it fails with the default \<^verbatim>\<open>64\<close>
  (one of the constructors of the networks and optimizers raised), with the same error, and
  it returns otherwise the same agent with the given batch size stored as it is.
\<close>

theorem init_ignores_batch_size:
  "init k env0 gamma0 actor_lr critic_lr b latent_dim0 lamda0 epsilon0 n_epoch0 device0
     = map_sum id (\<lambda>self. self\<lparr>batch_size := b\<rparr>)
         (init k env0 gamma0 actor_lr critic_lr 64 latent_dim0 lamda0 epsilon0 n_epoch0 device0)"
  by (simp add: init_def split: sum.splits)

text \<open>
  C4 as the specification states it fails: the constructor accepts the batch sizes \<open>0\<close>
  and \<open>-1\<close>.
\<close>

theorem init_ignores_batch_size_counterexample:
  "init toy () (99 / 100) (3 / 10000) (1 / 1000) 0 64 (95 / 100) (1 / 5) 10 ''cuda''
     = Inr \<lparr>env = (), batch_size = 0, latent_dim = 64, gamma = 99 / 100, lamda = 95 / 100,
            epsilon = 1 / 5, n_epoch = 10, device = ''cuda'', policy_net = 0, value_net = 0,
            policy_net_optimizer = 0, value_net_optimizer = 0\<rparr>
   \<and> init toy () (99 / 100) (3 / 10000) (1 / 1000) (- 1) 64 (95 / 100) (1 / 5) 10 ''cuda''
     = Inr \<lparr>env = (), batch_size = - 1, latent_dim = 64, gamma = 99 / 100, lamda = 95 / 100,
            epsilon = 1 / 5, n_epoch = 10, device = ''cuda'', policy_net = 0, value_net = 0,
            policy_net_optimizer = 0, value_net_optimizer = 0\<rparr>"
  by (simp add: init_def toy_def)

section \<open>The deterministic action\<close>

text \<open>
  C5 fails on the code. With \<^verbatim>\<open>deterministic=True\<close>, \<^verbatim>\<open>take_action\<close> returns the
  \<^verbatim>\<open>mean\<close> of the categorical distribution, which is \<^verbatim>\<open>nan\<close> and a float, whatever the
  observation and the probabilities: never the index of the largest probability. The random
  source is left as it was.
\<close>

theorem take_action_deterministic:
  "take_action k self observation True rng = (Float NaN, rng)
   \<and> fst (take_action k self observation True rng)
       \<noteq> Index (Categorical_mode (policy_forward k (policy_net self) observation))
   \<and> Categorical_mode [Fin (1 / 5), Fin (4 / 5)] = 1
   \<and> take_action toy (toy_agent 2 1) 0 True () = (Float NaN, ())
   \<and> Categorical_mode (policy_forward toy (policy_net (toy_agent 2 1)) 0) = 1"
  by (simp add: take_action_def Categorical_mean_def Categorical_mode_def toy_def toy_agent_def)

section \<open>The minibatches of an epoch\<close>

lemma range_from_concat:
  "0 < step \<Longrightarrow> stop = length xs \<Longrightarrow>
   concat (map (\<lambda>s. take step (drop s xs)) (range_from step stop i)) = drop i xs"
proof (induction step stop i rule: range_from.induct)
  case (1 step stop i)
  show ?case
  proof (cases "i < stop")
    case True
    have "concat (map (\<lambda>s. take step (drop s xs)) (range_from step stop i))
            = take step (drop i xs) @ drop (i + step) xs"
      using True "1.prems" "1.IH" by (simp add: range_from_go)
    moreover have "drop (i + step) xs = drop step (drop i xs)"
      by (simp add: add.commute)
    ultimately show ?thesis by (simp only: append_take_drop_id)
  next
    case False
    then show ?thesis using "1.prems" by (simp add: range_from_stop)
  qed
qed

lemma range_from_length:
  "0 < step \<Longrightarrow> length (range_from step stop i) = (stop - i + step - 1) div step"
proof (induction step stop i rule: range_from.induct)
  case (1 step stop i)
  show ?case
  proof (cases "i < stop")
    case True
    have l: "length (range_from step stop i) = Suc ((stop - (i + step) + step - 1) div step)"
      using True "1.prems" "1.IH" by (simp add: range_from_go)
    show ?thesis
    proof (cases "i + step \<le> stop")
      case le: True
      define m where "m = stop - (i + step) + step - 1"
      have "stop - i + step - 1 = m + step"
        using le "1.prems" by (simp add: m_def)
      moreover have "(m + step) div step = Suc (m div step)"
        using "1.prems" by simp
      ultimately show ?thesis using l by (simp only: m_def)
    next
      case f: False
      have "(stop - i + step - 1) div step = 1"
        using f True "1.prems" by (intro div_nat_eqI) simp_all
      moreover have "(stop - (i + step) + step - 1) div step = 0"
        using f "1.prems" by simp
      ultimately show ?thesis using l by simp
    qed
  next
    case False
    then show ?thesis using "1.prems" by (simp add: range_from_stop)
  qed
qed

lemma range_from_mem: "s \<in> set (range_from step stop i) \<Longrightarrow> s < stop"
proof (induction step stop i rule: range_from.induct)
  case (1 step stop i)
  show ?case
  proof (cases "0 < step \<and> i < stop")
    case True
    then show ?thesis using "1.prems" "1.IH" by (auto simp: range_from_go)
  next
    case False
    then have "range_from step stop i = []" by (subst range_from.simps) simp
    then show ?thesis using "1.prems" by simp
  qed
qed

lemma range_from_butlast:
  "s \<in> set (butlast (range_from step stop i)) \<Longrightarrow> s + step < stop"
proof (induction step stop i rule: range_from.induct)
  case (1 step stop i)
  show ?case
  proof (cases "0 < step \<and> i < stop")
    case True
    then have eq: "range_from step stop i = i # range_from step stop (i + step)"
      by (simp add: range_from_go)
    show ?thesis
    proof (cases "range_from step stop (i + step) = []")
      case True
      then show ?thesis using "1.prems" eq by simp
    next
      case ne: False
      then have "i + step < stop"
        using range_from_stop [of "i + step" stop step] by blast
      then show ?thesis using "1.prems" "1.IH" True eq ne by auto
    qed
  next
    case False
    then have "range_from step stop i = []" by (subst range_from.simps) simp
    then show ?thesis using "1.prems" by simp
  qed
qed

lemma ceiling_div_nat:
  assumes "0 < b"
  shows "int ((n + b - 1) div b) = \<lceil>real n / real b\<rceil>"
proof -
  let ?q = "(n + b - 1) div b"
  have up: "n \<le> ?q * b"
  proof -
    have "n + b - 1 < (?q + 1) * b"
      using assms by (metis Suc_eq_plus1 dividend_less_div_times mult.commute add.commute
          less_add_same_cancel1 mult_Suc)
    then show ?thesis using assms by simp
  qed
  have low: "?q * b < n + b"
  proof -
    have "?q * b \<le> n + b - 1" by simp
    then show ?thesis using assms by linarith
  qed
  have "real n / real b \<le> real ?q"
    using up assms by (simp add: pos_divide_le_eq flip: of_nat_mult)
  moreover have "real ?q - 1 < real n / real b"
  proof -
    have "real ?q * real b < real n + real b"
      using low by (metis of_nat_add of_nat_less_iff of_nat_mult)
    then have "(real ?q - 1) * real b < real n" by (simp add: algebra_simps)
    then show ?thesis using assms by (simp add: pos_less_divide_eq)
  qed
  ultimately have "\<lceil>real n / real b\<rceil> = int ?q"
    by (intro ceiling_unique) simp_all
  then show ?thesis by simp
qed

text \<open>The slices \<^verbatim>\<open>xs[s: s + step]\<close> at the starts \<^verbatim>\<open>range(0, len(xs), step)\<close>.\<close>

lemma slices:
  assumes "0 < step" and "xs \<noteq> []"
    and "sl = map (\<lambda>s. take step (drop s xs)) (range_from step (length xs) 0)"
  shows "concat sl = xs" and "length sl = (length xs + step - 1) div step"
    and "\<forall>x\<in>set (butlast sl). length x = step"
    and "sl \<noteq> []" and "0 < length (last sl)" and "length (last sl) \<le> step"
proof -
  let ?starts = "range_from step (length xs) 0"
  show "concat sl = xs"
    using range_from_concat [OF assms(1) refl, of xs 0] assms(3) by simp
  show len: "length sl = (length xs + step - 1) div step"
    using range_from_length [OF assms(1), of "length xs" 0] assms(3) by simp
  show "\<forall>x\<in>set (butlast sl). length x = step"
  proof
    fix x assume "x \<in> set (butlast sl)"
    then have "x \<in> set (map (\<lambda>s. take step (drop s xs)) (butlast ?starts))"
      using assms(3) by (simp add: map_butlast)
    then obtain s where s: "s \<in> set (butlast ?starts)" and x: "x = take step (drop s xs)"
      by auto
    from range_from_butlast [OF s] show "length x = step" using x by simp
  qed
  have ne: "?starts \<noteq> []"
    using assms(1,2) by (simp add: range_from_go)
  then show "sl \<noteq> []" using assms(3) by simp
  have l: "last sl = take step (drop (last ?starts) xs)"
    using ne assms(3) by (simp add: last_map)
  have "last ?starts \<in> set ?starts" using ne by simp
  then have "last ?starts < length xs" by (rule range_from_mem)
  then show "0 < length (last sl)" and "length (last sl) \<le> step"
    using l assms(1) by simp_all
qed

text \<open>
  C3. In a run of \<^verbatim>\<open>train\<close> that returns, on a buffer of \<open>N > 0\<close> transitions with a
  batch size \<open>B > 0\<close> and a shuffle that permutes, there are \<^verbatim>\<open>n_epoch\<close> epochs, and in
  each of them the minibatches hold every index below \<open>N\<close> exactly once, there are
  \<open>\<lceil>N / B\<rceil>\<close> of them, all but the last have \<open>B\<close> indices, and the last has between
  one and \<open>B\<close>.
\<close>

theorem minibatch_coverage:
  assumes "train k self buffer_dict rng = Inr (self', buffer', rng', mss)"
    and "observations buffer_dict = Some obs" and "obs \<noteq> []" and "0 < batch_size self"
    and "\<forall>g xs. mset (fst (shuffle k g xs)) = mset xs"
  shows "length mss = nat (n_epoch self) \<and>
     (\<forall>ms\<in>set mss.
        set (concat (map sgd_idx_arr ms)) = {0..<length obs} \<and>
        distinct (concat (map sgd_idx_arr ms)) \<and>
        int (length ms) = \<lceil>real (length obs) / real_of_int (batch_size self)\<rceil> \<and>
        (\<forall>m\<in>set (butlast ms). int (length (sgd_idx_arr m)) = batch_size self) \<and>
        0 < length (sgd_idx_arr (last ms)) \<and>
        int (length (sgd_idx_arr (last ms))) \<le> batch_size self)"
proof -
  from assms(1) obtain obs' next_obs acts dns rews probs adv where
    o: "observations buffer_dict = Some obs'"
    and ep: "epoch_loop k
       \<lparr>obs_tensor = obs', next_obs_tensor = next_obs, action_tensor = acts, done_tensor = dns,
        reward_tensor = rews, old_log_prob = map flog probs, advantage_tensor = adv\<rparr>
       (nat (n_epoch self)) self rng = Inr (self', rng', mss)"
    by (rule train_InrD)
  have obs': "obs' = obs" using o assms(2) by simp
  define B where "B = nat (batch_size self)"
  have B: "0 < B" "int B = batch_size self" using assms(4) by (simp_all add: B_def)
  have each: "set (concat (map sgd_idx_arr ms)) = {0..<length obs} \<and>
        distinct (concat (map sgd_idx_arr ms)) \<and>
        int (length ms) = \<lceil>real (length obs) / real_of_int (batch_size self)\<rceil> \<and>
        (\<forall>m\<in>set (butlast ms). int (length (sgd_idx_arr m)) = batch_size self) \<and>
        0 < length (sgd_idx_arr (last ms)) \<and>
        int (length (sgd_idx_arr (last ms))) \<le> batch_size self"
    if "ms \<in> set mss" for ms
  proof -
    from epoch_loop_idx [OF ep] that obtain g starts where
      pr: "py_range (length (fst (shuffle k g [0..<length obs]))) (batch_size self) = Inr starts"
      and mp: "map sgd_idx_arr ms =
         map (\<lambda>s. take B (drop s (fst (shuffle k g [0..<length obs])))) starts"
      unfolding B_def obs' by fastforce
    define idx_arr where "idx_arr = fst (shuffle k g [0..<length obs])"
    have perm: "mset idx_arr = mset [0..<length obs]"
      using assms(5) by (simp add: idx_arr_def)
    then have li: "length idx_arr = length obs" by (metis length_upt minus_nat.diff_0 size_mset)
    then have ne: "idx_arr \<noteq> []" using assms(3) by auto
    have st: "starts = range_from B (length idx_arr) 0"
      using pr assms(4) by (simp add: py_range_def idx_arr_def B_def)
    have sl: "map sgd_idx_arr ms = map (\<lambda>s. take B (drop s idx_arr)) (range_from B (length idx_arr) 0)"
      using mp st by (simp add: idx_arr_def)
    note s = slices [OF B(1) ne sl]
    have msne: "ms \<noteq> []" using s(4) by auto
    have 1: "set (concat (map sgd_idx_arr ms)) = {0..<length obs}"
      using s(1) perm by (metis mset_eq_setD set_upt)
    have 2: "distinct (concat (map sgd_idx_arr ms))"
      using s(1) perm by (metis distinct_upt mset_eq_imp_distinct_iff)
    have "length ms = (length obs + B - 1) div B" using s(2) li by simp
    then have 3: "int (length ms) = \<lceil>real (length obs) / real_of_int (batch_size self)\<rceil>"
      using ceiling_div_nat [OF B(1), of "length obs"] B(2) by (metis of_int_of_nat_eq)
    have 4: "\<forall>m\<in>set (butlast ms). int (length (sgd_idx_arr m)) = batch_size self"
    proof
      fix m assume "m \<in> set (butlast ms)"
      then have "sgd_idx_arr m \<in> set (map sgd_idx_arr (butlast ms))"
        by simp
      then have "sgd_idx_arr m \<in> set (butlast (map sgd_idx_arr ms))"
        by (simp only: map_butlast)
      with s(3) show "int (length (sgd_idx_arr m)) = batch_size self" using B(2) by auto
    qed
    have "last (map sgd_idx_arr ms) = sgd_idx_arr (last ms)"
      using msne by (simp add: last_map)
    with s(5,6) have 5: "0 < length (sgd_idx_arr (last ms))"
      and 6: "int (length (sgd_idx_arr (last ms))) \<le> batch_size self"
      using B(2) by simp_all
    from 1 2 3 4 5 6 show ?thesis by blast
  qed
  from epoch_loop_linked [OF ep] have "length mss = nat (n_epoch self)" by simp
  with each show ?thesis by blast
qed

theorem minibatch_coverage_witness:
  "\<exists>self' buffer' rng' m1 m2.
      train toy (toy_agent 2 0) (toy_buffer [0, 0, 0]) () = Inr (self', buffer', rng', [[m1, m2]]) \<and>
      sgd_idx_arr m1 = [2, 1] \<and> sgd_idx_arr m2 = [0] \<and>
      set (concat (map sgd_idx_arr [m1, m2])) = {0..<3} \<and>
      distinct (concat (map sgd_idx_arr [m1, m2])) \<and>
      int (length [m1, m2]) = \<lceil>real (3::nat) / real_of_int 2\<rceil> \<and>
      int (length (sgd_idx_arr m1)) = 2 \<and>
      0 < length (sgd_idx_arr m2) \<and> int (length (sgd_idx_arr m2)) \<le> 2"
proof -
  let ?m1 = "\<lparr>sgd_idx_arr = [2, 1], sgd_old_log_prob = [Fin 0, Fin 0], ratio = [Fin 1, Fin 1],
             td_target = [Fin 1, Fin 1], policy_loss = Fin (- (3 / 4)), value_loss = Fin 1,
             self_before = toy_agent 2 0, self_after = toy_agent 2 1\<rparr>"
  let ?m2 = "\<lparr>sgd_idx_arr = [0], sgd_old_log_prob = [Fin 0], ratio = [Fin 0],
             td_target = [Fin (3 / 2)], policy_loss = Fin 0, value_loss = Fin (1 / 4),
             self_before = toy_agent 2 1, self_after = toy_agent 2 2\<rparr>"
  have o: "observations (toy_buffer [0, 0, 0]) = Some [0, 1, 2]"
    by (simp add: toy_buffer_def)
  have b: "0 < batch_size (toy_agent 2 0)" by (simp add: toy_agent_def)
  have p: "\<forall>g xs. mset (fst (shuffle toy g xs)) = mset xs" by (simp add: toy_def)
  have ne: "[0, 1, 2::nat] \<noteq> []" by simp
  have "set (concat (map sgd_idx_arr [?m1, ?m2])) = {0..<3} \<and>
      distinct (concat (map sgd_idx_arr [?m1, ?m2])) \<and>
      int (length [?m1, ?m2]) = \<lceil>real (3::nat) / real_of_int 2\<rceil> \<and>
      int (length (sgd_idx_arr ?m1)) = 2 \<and>
      0 < length (sgd_idx_arr ?m2) \<and> int (length (sgd_idx_arr ?m2)) \<le> 2"
    using minibatch_coverage [OF toy_run o ne b p]
    by (simp add: toy_agent_def numeral_3_eq_3)
  moreover have "sgd_idx_arr ?m1 = [2, 1]" "sgd_idx_arr ?m2 = [0]" by simp_all
  ultimately show ?thesis using toy_run by blast
qed

section \<open>The empty buffer\<close>

lemma sgd_loop_Nil: "sgd_loop k t idx_arr [] self = Inr (self, [])"
  by simp




text \<open>The two conditions are needed. On the empty buffer a policy network that raises on
  the empty batch makes \<^verbatim>\<open>train\<close> raise at line 61, and with the batch size zero, which
  \<^verbatim>\<open>__init__\<close> accepts, \<^verbatim>\<open>range(0, 0, 0)\<close> raises \<^verbatim>\<open>ValueError\<close> in the first epoch.\<close>

lemma train_empty_buffer_network_raises:
  assumes "observations b = Some []" and "next_observations b = Some []"
    and "actions b = Some []" and "dones b = Some []" and "rewards b = Some []"
    and "policy_empty k (policy_net self) = Some e"
  shows "train k self b rng = Inl e"
  using assms by (simp add: train_def aligned_def policy_call_def)

lemma train_empty_buffer_zero_batch:
  fixes b :: "'o buffer"
  assumes "observations b = Some []" and "next_observations b = Some []"
    and "actions b = Some []" and "dones b = Some []" and "rewards b = Some []"
    and "batch_size self = 0" and "0 < n_epoch self"
    and "policy_empty k (policy_net self) = None" and "value_empty k (value_net self) = None"
  shows "train k self b rng = Inl ValueError"
proof -
  let ?t = "\<lparr>obs_tensor = [], next_obs_tensor = [], action_tensor = [], done_tensor = [],
        reward_tensor = [], old_log_prob = [], advantage_tensor = []\<rparr> :: 'o tensors"
  obtain n where n: "nat (n_epoch self) = Suc n"
    using assms(7) by (cases "nat (n_epoch self)") simp_all
  have "epoch_loop k ?t (Suc n) self rng = Inl ValueError"
    using assms(6) by (simp add: py_range_def split: prod.splits)
  then show ?thesis
    using assms(1-5,8,9) n
    by (simp add: train_def aligned_def gather_def td_target_of_def masked_next_value_def
        compute_advantage_def policy_call_def value_call_def)
qed

section \<open>Ratios that are not finite\<close>

lemma gather_Inr:
  assumes "\<forall>(row, a)\<in>set (zip logit action). a < length row"
  shows "gather logit action = Inr (map (\<lambda>(row, a). row ! a) (zip logit action))"
  using assms by (simp add: gather_def list_all_iff)

lemma gather_forward:
  assumes "\<forall>p x. length (policy_forward k p x) = n" and "\<forall>a\<in>set acts. a < n"
  shows "\<exists>probs. gather (map (policy_forward k p) xs) acts = Inr probs"
proof -
  have "\<forall>(row, a)\<in>set (zip (map (policy_forward k p) xs) acts). a < length row"
  proof (clarify)
    fix row a assume "(row, a) \<in> set (zip (map (policy_forward k p) xs) acts)"
    then have "row \<in> set (map (policy_forward k p) xs)" and "a \<in> set acts"
      by (auto dest: set_zip_leftD set_zip_rightD)
    then show "a < length row" using assms by auto
  qed
  from gather_Inr [OF this] show ?thesis by blast
qed

lemma ratio_of_length:
  assumes "ratio_of k xs acts old p = Inr r" and "length acts = length xs"
    and "length old = length xs"
  shows "length r = length xs"
proof -
  from assms(1) obtain probs where
    g: "gather (map (policy_forward k p) xs) acts = Inr probs"
    and r: "r = map (\<lambda>(lp, old). fexp (fsub lp old)) (zip (map flog probs) old)"
    by (auto simp: ratio_of_def split: sum.splits)
  have "length probs = length acts"
    by (rule gather_InrD(1) [OF g]) (simp add: assms(2))
  then show ?thesis using r assms(2,3) by simp
qed

lemma foldl_fadd_NaN: "foldl fadd NaN xs = NaN"
  by (induction xs) simp_all

lemma fadd_NaN_right: "fadd x NaN = NaN"
  by (cases x) simp_all

lemma fsum_NaN: "NaN \<in> set xs \<Longrightarrow> fsum xs = NaN"
proof -
  have "NaN \<in> set xs \<Longrightarrow> foldl fadd a xs = NaN" for a
    by (induction xs arbitrary: a) (auto simp: foldl_fadd_NaN fadd_NaN_right)
  then show "NaN \<in> set xs \<Longrightarrow> fsum xs = NaN" by (simp add: fsum_def)
qed

lemma fmean_NaN: "NaN \<in> set xs \<Longrightarrow> fmean xs = NaN"
  by (auto simp: fmean_def fsum_NaN)

lemma policy_loss_of_eq:
  "policy_loss_of eps r adv =
     fneg (fmean (map (\<lambda>(x, a). fmin (fmul x a) (fmul (fclamp x (1 - eps) (1 + eps)) a))
                   (zip r adv)))"
  by (simp add: policy_loss_of_def Let_def zip_map_map zip_same_conv_map split_def comp_def)

lemma policy_loss_of_NaN:
  assumes "NaN \<in> set r" and "length r = length adv"
  shows "policy_loss_of eps r adv = NaN"
proof -
  from assms(1) obtain j where j: "j < length r" "r ! j = NaN"
    by (auto simp: in_set_conv_nth)
  then have "(NaN, adv ! j) \<in> set (zip r adv)"
    using assms(2) by (metis in_set_zip fst_conv snd_conv)
  then have "fmin (fmul NaN (adv ! j)) (fmul (fclamp NaN (1 - eps) (1 + eps)) (adv ! j))
      \<in> set (map (\<lambda>(x, a). fmin (fmul x a) (fmul (fclamp x (1 - eps) (1 + eps)) a)) (zip r adv))"
    by force
  then have "NaN \<in> set (map (\<lambda>(x, a). fmin (fmul x a) (fmul (fclamp x (1 - eps) (1 + eps)) a))
                          (zip r adv))"
    by (simp add: fmin_def)
  then show ?thesis by (simp only: policy_loss_of_eq fmean_NaN fneg.simps)
qed

lemma sgd_step_succeeds:
  assumes "\<forall>i\<in>set idx. i < n" and "idx \<noteq> []"
    and "length (obs_tensor t) = n" and "length (next_obs_tensor t) = n"
    and "length (action_tensor t) = n" and "length (done_tensor t) = n"
    and "length (reward_tensor t) = n" and "length (old_log_prob t) = n"
    and "length (advantage_tensor t) = n"
    and "\<forall>p x. length (policy_forward k p x) = na" and "\<forall>a\<in>set (action_tensor t). a < na"
  shows "\<exists>s1 m. sgd_step k t idx self = Inr (s1, m)"
proof -
  have r: "rows (obs_tensor t) idx = Inr (map (\<lambda>i. obs_tensor t ! i) idx)"
    "rows (next_obs_tensor t) idx = Inr (map (\<lambda>i. next_obs_tensor t ! i) idx)"
    "rows (action_tensor t) idx = Inr (map (\<lambda>i. action_tensor t ! i) idx)"
    "rows (done_tensor t) idx = Inr (map (\<lambda>i. done_tensor t ! i) idx)"
    "rows (reward_tensor t) idx = Inr (map (\<lambda>i. reward_tensor t ! i) idx)"
    "rows (advantage_tensor t) idx = Inr (map (\<lambda>i. advantage_tensor t ! i) idx)"
    "rows (old_log_prob t) idx = Inr (map (\<lambda>i. old_log_prob t ! i) idx)"
    using assms(1,3-9) by (simp_all add: rows_Inr)
  have c: "policy_call k (policy_net self) (map (\<lambda>i. obs_tensor t ! i) idx) = None"
    "value_call k (value_net self) (map (\<lambda>i. obs_tensor t ! i) idx) = None"
    "value_call k (value_net self) (map (\<lambda>i. next_obs_tensor t ! i) idx) = None"
    using assms(2) by (simp_all add: policy_call_def value_call_def)
  have "\<forall>a\<in>set (map (\<lambda>i. action_tensor t ! i) idx). a < na"
    using assms(1,5,11) by auto
  from gather_forward [OF assms(10) this]
  obtain probs where "gather (map (policy_forward k (policy_net self))
      (map (\<lambda>i. obs_tensor t ! i) idx)) (map (\<lambda>i. action_tensor t ! i) idx) = Inr probs"
    by blast
  then have "\<exists>r. ratio_of k (map (\<lambda>i. obs_tensor t ! i) idx)
      (map (\<lambda>i. action_tensor t ! i) idx) (map (\<lambda>i. old_log_prob t ! i) idx) (policy_net self)
      = Inr r"
    by (simp add: ratio_of_def)
  then show ?thesis
    by (auto simp: sgd_step_def r c Let_def split: prod.splits)
qed

lemma sgd_loop_succeeds:
  assumes "\<forall>i\<in>set idx_arr. i < n"
    and "length (obs_tensor t) = n" and "length (next_obs_tensor t) = n"
    and "length (action_tensor t) = n" and "length (done_tensor t) = n"
    and "length (reward_tensor t) = n" and "length (old_log_prob t) = n"
    and "length (advantage_tensor t) = n"
    and "\<forall>p x. length (policy_forward k p x) = na" and "\<forall>a\<in>set (action_tensor t). a < na"
    and "\<forall>s\<in>set starts. s < length idx_arr" and "0 < batch_size self"
  shows "\<exists>s1 ms. sgd_loop k t idx_arr starts self = Inr (s1, ms)"
  using assms(11,12)
proof (induction starts arbitrary: self)
  case Nil
  then show ?case by simp
next
  case (Cons sgd_idx starts)
  have in_range: "\<forall>i\<in>set (take (nat (batch_size self)) (drop sgd_idx idx_arr)). i < n"
    using assms(1) by (meson in_set_dropD in_set_takeD)
  have ne: "take (nat (batch_size self)) (drop sgd_idx idx_arr) \<noteq> []"
    using Cons.prems by simp
  from sgd_step_succeeds [OF in_range ne assms(2-10)]
  obtain s1 m where
    st: "sgd_step k t (take (nat (batch_size self)) (drop sgd_idx idx_arr)) self = Inr (s1, m)"
    by blast
  have "0 < batch_size s1" using sgd_step_after(3) [OF st] Cons.prems(2) by simp
  moreover have "\<forall>s\<in>set starts. s < length idx_arr" using Cons.prems(1) by simp
  ultimately obtain s2 ms where
    "sgd_loop k t idx_arr starts s1 = Inr (s2, ms)" using Cons.IH by blast
  then show ?case using st by simp
qed

lemma epoch_loop_succeeds:
  assumes "\<forall>g xs. mset (fst (shuffle k g xs)) = mset xs" and "batch_size self \<noteq> 0"
    and "length (obs_tensor t) = n" and "length (next_obs_tensor t) = n"
    and "length (action_tensor t) = n" and "length (done_tensor t) = n"
    and "length (reward_tensor t) = n" and "length (old_log_prob t) = n"
    and "length (advantage_tensor t) = n"
    and "\<forall>p x. length (policy_forward k p x) = na" and "\<forall>a\<in>set (action_tensor t). a < na"
  shows "\<exists>s1 rng1 mss. epoch_loop k t e self rng = Inr (s1, rng1, mss)"
  using assms(2)
proof (induction e arbitrary: self rng)
  case 0
  then show ?case by simp
next
  case (Suc e)
  obtain idx_arr rng1 where sh: "shuffle k rng [0..<length (obs_tensor t)] = (idx_arr, rng1)"
    by (cases "shuffle k rng [0..<length (obs_tensor t)]") auto
  have "mset idx_arr = mset [0..<n]" using assms(1,3) sh by (metis fst_conv)
  then have "set idx_arr = set [0..<n]" by (rule mset_eq_setD)
  then have in_range: "\<forall>i\<in>set idx_arr. i < n" by simp
  have "\<exists>starts. py_range (length idx_arr) (batch_size self) = Inr starts"
    using Suc.prems by (simp add: py_range_def)
  then obtain starts where pr: "py_range (length idx_arr) (batch_size self) = Inr starts" ..
  have "\<exists>s1 ms. sgd_loop k t idx_arr starts self = Inr (s1, ms)"
  proof (cases "0 < batch_size self")
    case True
    then have "starts = range_from (nat (batch_size self)) (length idx_arr) 0"
      using pr by (simp add: py_range_def)
    then have "\<forall>s\<in>set starts. s < length idx_arr"
      by (auto dest: range_from_mem)
    from sgd_loop_succeeds [OF in_range assms(3-11) this True] show ?thesis .
  next
    case False
    then have "starts = []" using pr Suc.prems by (simp add: py_range_def)
    then show ?thesis by simp
  qed
  then obtain s1 ms where
    lp: "sgd_loop k t idx_arr starts self = Inr (s1, ms)" by blast
  from sgd_loop_idx [OF lp] have "batch_size s1 \<noteq> 0" using Suc.prems by simp
  from Suc.IH [OF this, of rng1] obtain s2 rng2 mss where
    "epoch_loop k t e s1 rng1 = Inr (s2, rng2, mss)" by blast
  then show ?case using sh pr lp by simp
qed

lemma td_target_of_length:
  "length next_obs = n \<Longrightarrow> length dns = n \<Longrightarrow> length rews = n \<Longrightarrow>
   length (td_target_of k g vn next_obs dns rews) = n"
  by (simp add: td_target_of_def masked_next_value_def)

text \<open>
  C8, as amended. \<^verbatim>\<open>train\<close> has no check of the ratio. On a buffer whose arrays have one
  length and whose actions are columns of the policy's output, with a batch size other than
  zero (and a shuffle that permutes; a buffer with no rows is one the networks accept),
  \<^verbatim>\<open>train\<close> returns whatever the probabilities are; in
  every minibatch the policy loss is \<^verbatim>\<open>-mean(min(ratio * advantage, clamp(ratio) *
  advantage))\<close> of the ratio as it is, a \<^verbatim>\<open>nan\<close> in the ratio makes the loss \<^verbatim>\<open>nan\<close>, and
  that loss is what the gradient step of the policy is given.
\<close>

theorem train_propagates_non_finite:
  fixes b :: "'o buffer"
  assumes "observations b = Some obs" and "next_observations b = Some next_obs"
    and "actions b = Some acts" and "dones b = Some dns" and "rewards b = Some rews"
    and "aligned obs next_obs acts dns rews"
    and "\<forall>p x. length (policy_forward k p x) = na" and "\<forall>a\<in>set acts. a < na"
    and "batch_size self \<noteq> 0"
    and "\<forall>g xs. mset (fst (shuffle k g xs)) = mset xs"
    and "obs \<noteq> [] \<or>
         (policy_empty k (policy_net self) = None \<and> value_empty k (value_net self) = None)"
  shows "\<exists>self' b' rng' mss adv.
      train k self b rng = Inr (self', b', rng', mss) \<and> advantages b' = Some adv \<and>
      (\<forall>ms\<in>set mss. \<forall>m\<in>set ms.
         policy_loss_fn k (epsilon self) (map (\<lambda>i. obs ! i) (sgd_idx_arr m))
             (map (\<lambda>i. acts ! i) (sgd_idx_arr m)) (sgd_old_log_prob m)
             (map (\<lambda>i. adv ! i) (sgd_idx_arr m)) (policy_net (self_before m))
           = Inr (policy_loss m) \<and>
         policy_loss m =
           policy_loss_of (epsilon self) (ratio m) (map (\<lambda>i. adv ! i) (sgd_idx_arr m)) \<and>
         (NaN \<in> set (ratio m) \<longrightarrow> policy_loss m = NaN) \<and>
         (policy_net_optimizer (self_after m), policy_net (self_after m)) =
           policy_backward_step k
             (policy_loss_fn k (epsilon self) (map (\<lambda>i. obs ! i) (sgd_idx_arr m))
                (map (\<lambda>i. acts ! i) (sgd_idx_arr m)) (sgd_old_log_prob m)
                (map (\<lambda>i. adv ! i) (sgd_idx_arr m)))
             (policy_net_optimizer (self_before m)) (policy_net (self_before m)))"
proof -
  define n where "n = length obs"
  have len: "length next_obs = n" "length acts = n" "length dns = n" "length rews = n"
    using assms(6) by (simp_all add: aligned_def n_def)
  from gather_forward [OF assms(7,8)] obtain probs where
    g: "gather (map (policy_forward k (policy_net self)) obs) acts = Inr probs" by blast
  have lp: "length probs = n"
    using gather_InrD(1) [OF g] len by (simp add: n_def)
  define delta where "delta = map (\<lambda>(a, b). fsub a b)
          (zip (td_target_of k (gamma self) (value_net self) next_obs dns rews)
               (map (value_forward k (value_net self)) obs))"
  have ld: "length delta = n"
    using td_target_of_length [OF len(1,3,4), of k "gamma self" "value_net self"]
    by (simp add: delta_def n_def)
  define adv where "adv = adv_list (gamma self) (lamda self) dns delta"
  have la: "length adv = n"
    using ld len by (simp add: adv_def length_adv_list)
  define b1 where "b1 = b\<lparr>td_delta := Some delta, advantages := Some adv\<rparr>"
  have ca: "compute_advantage (gamma self) (lamda self) (b\<lparr>td_delta := Some delta\<rparr>) = Inr b1"
    using compute_advantage_eq [of "b\<lparr>td_delta := Some delta\<rparr>" dns delta "gamma self" "lamda self"]
      assms(4) ld len by (simp add: b1_def adv_def)
  define t where "t = \<lparr>obs_tensor = obs, next_obs_tensor = next_obs, action_tensor = acts,
        done_tensor = dns, reward_tensor = rews, old_log_prob = map flog probs,
        advantage_tensor = adv\<rparr>"
  have "\<exists>s1 rng1 mss. epoch_loop k t (nat (n_epoch self)) self rng = Inr (s1, rng1, mss)"
    by (rule epoch_loop_succeeds [where n = n and na = na])
       (use assms(7,8,9,10) len lp la in \<open>simp_all add: t_def n_def\<close>)
  then obtain self' rng' mss where
    ep: "epoch_loop k t (nat (n_epoch self)) self rng = Inr (self', rng', mss)" by blast
  have "next_obs = [] \<longleftrightarrow> obs = []" using len(1) by (auto simp: n_def)
  then have calls: "policy_call k (policy_net self) obs = None"
    "value_call k (value_net self) obs = None"
    "value_call k (value_net self) next_obs = None"
    using assms(11) by (auto simp: policy_call_def value_call_def)
  have tr: "train k self b rng = Inr (self', b1, rng', mss)"
    using assms(1-6) g ca ep calls
    by (simp add: train_def Let_def delta_def [symmetric] t_def [symmetric] b1_def)
  let ?P = "\<lambda>m. policy_loss_fn k (epsilon self) (map (\<lambda>i. obs ! i) (sgd_idx_arr m))
             (map (\<lambda>i. acts ! i) (sgd_idx_arr m)) (sgd_old_log_prob m)
             (map (\<lambda>i. adv ! i) (sgd_idx_arr m)) (policy_net (self_before m))
           = Inr (policy_loss m) \<and>
         policy_loss m =
           policy_loss_of (epsilon self) (ratio m) (map (\<lambda>i. adv ! i) (sgd_idx_arr m)) \<and>
         (NaN \<in> set (ratio m) \<longrightarrow> policy_loss m = NaN) \<and>
         (policy_net_optimizer (self_after m), policy_net (self_after m)) =
           policy_backward_step k
             (policy_loss_fn k (epsilon self) (map (\<lambda>i. obs ! i) (sgd_idx_arr m))
                (map (\<lambda>i. acts ! i) (sgd_idx_arr m)) (sgd_old_log_prob m)
                (map (\<lambda>i. adv ! i) (sgd_idx_arr m)))
             (policy_net_optimizer (self_before m)) (policy_net (self_before m))"
  have step: "?P m \<and> epsilon s1 = epsilon self"
    if q: "epsilon s = epsilon self" and st: "sgd_step k t idx s = Inr (s1, m)"
    for idx s s1 m
  proof -
    define old where "old = map (\<lambda>i. map flog probs ! i) idx"
    from sgd_step_InrD [OF st] obtain r where
      r: "ratio_of k (map (\<lambda>i. obs ! i) idx) (map (\<lambda>i. acts ! i) idx) old (policy_net s) = Inr r"
      and m: "sgd_idx_arr m = idx" "sgd_old_log_prob m = old" "ratio m = r"
        "self_before m = s" "self_after m = s1"
        "policy_loss m = policy_loss_of (epsilon s) r (map (\<lambda>i. adv ! i) idx)"
      by (auto simp: t_def old_def)
    have lr: "length r = length (map (\<lambda>i. adv ! i) idx)"
      using ratio_of_length [OF r] by (simp add: old_def)
    have 1: "policy_loss_fn k (epsilon self) (map (\<lambda>i. obs ! i) idx) (map (\<lambda>i. acts ! i) idx)
               old (map (\<lambda>i. adv ! i) idx) (policy_net s) = Inr (policy_loss m)"
      using r m(6) q by (simp add: policy_loss_fn_def)
    have 2: "policy_loss m = policy_loss_of (epsilon self) r (map (\<lambda>i. adv ! i) idx)"
      using m(6) q by simp
    have 3: "NaN \<in> set r \<longrightarrow> policy_loss m = NaN"
      using policy_loss_of_NaN [OF _ lr] 2 by simp
    have 4: "(policy_net_optimizer s1, policy_net s1) =
           policy_backward_step k
             (policy_loss_fn k (epsilon self) (map (\<lambda>i. obs ! i) idx)
                (map (\<lambda>i. acts ! i) idx) old (map (\<lambda>i. adv ! i) idx))
             (policy_net_optimizer s) (policy_net s)"
      using sgd_step_after(1) [OF st] q by (simp add: t_def old_def)
    have e: "epsilon s1 = epsilon self" using sgd_step_after(5) [OF st] q by simp
    show ?thesis
      unfolding m(1) m(2) m(3) m(4) m(5)
      using 1 2 3 4 e by blast
  qed
  have "epsilon self' = epsilon self \<and> (\<forall>ms\<in>set mss. \<forall>m\<in>set ms. ?P m)"
  proof (rule epoch_loop_invariant [where Q = "\<lambda>s. epsilon s = epsilon self" and P = ?P, OF ep])
    show "epsilon self = epsilon self" ..
  next
    fix idx s s1 m
    assume "epsilon s = epsilon self" and "sgd_step k t idx s = Inr (s1, m)"
    then show "?P m \<and> epsilon s1 = epsilon self" by (rule step)
  qed
  then have "\<forall>ms\<in>set mss. \<forall>m\<in>set ms. ?P m" ..
  moreover have "advantages b1 = Some adv" by (simp add: b1_def)
  ultimately show ?thesis using tr by blast
qed

text \<open>The run of the examples on a buffer whose stored action has probability zero under
  the policy \<^verbatim>\<open>train\<close> is called with.\<close>

lemma toy_run_zero_probability:
  "train toy (toy_agent 2 0) (toy_buffer [1, 1, 1]) ()
   = Inr (toy_agent 2 2,
          (toy_buffer [1, 1, 1])
            \<lparr>td_delta := Some [Fin 1, Fin 1, Fin 1],
             advantages := Some [Fin (3 / 2), Fin 1, Fin (1 / 2)]\<rparr>,
          (),
          [[\<lparr>sgd_idx_arr = [2, 1], sgd_old_log_prob = [NInf, NInf], ratio = [NaN, NaN],
             td_target = [Fin 1, Fin 1], policy_loss = NaN, value_loss = Fin 1,
             self_before = toy_agent 2 0, self_after = toy_agent 2 1\<rparr>,
            \<lparr>sgd_idx_arr = [0], sgd_old_log_prob = [NInf], ratio = [PInf],
             td_target = [Fin (3 / 2)], policy_loss = Fin (- (9 / 5)), value_loss = Fin (1 / 4),
             self_before = toy_agent 2 1, self_after = toy_agent 2 2\<rparr>]])"
  by (simp add: train_def toy_def toy_agent_def toy_buffer_def aligned_def gather_def
      policy_call_def value_call_def
      td_target_of_def masked_next_value_def
      compute_advantage_def Let_def py_range_def range_from_go range_from_stop sgd_step_def
      rows_def ratio_of_def policy_loss_fn_def policy_loss_of_def value_loss_fn_def
      mse_loss_def fmean_def fsum_def fsub_def fclamp_def fmin_def fmax_def inf_times_def)

theorem train_propagates_non_finite_witness:
  "\<exists>self' b' rng' m1 m2.
      train toy (toy_agent 2 0) (toy_buffer [1, 1, 1]) () = Inr (self', b', rng', [[m1, m2]]) \<and>
      advantages b' = Some [Fin (3 / 2), Fin 1, Fin (1 / 2)] \<and>
      ratio m1 = [NaN, NaN] \<and> policy_loss m1 = NaN \<and>
      policy_loss m1 = policy_loss_of (1 / 5) [NaN, NaN] [Fin (1 / 2), Fin 1] \<and>
      ratio m2 = [PInf] \<and>
      policy_loss m2 = policy_loss_of (1 / 5) [PInf] [Fin (3 / 2)]"
proof -
  let ?m1 = "\<lparr>sgd_idx_arr = [2, 1], sgd_old_log_prob = [NInf, NInf], ratio = [NaN, NaN],
             td_target = [Fin 1, Fin 1], policy_loss = NaN, value_loss = Fin 1,
             self_before = toy_agent 2 0, self_after = toy_agent 2 1\<rparr>"
  let ?m2 = "\<lparr>sgd_idx_arr = [0], sgd_old_log_prob = [NInf], ratio = [PInf],
             td_target = [Fin (3 / 2)], policy_loss = Fin (- (9 / 5)), value_loss = Fin (1 / 4),
             self_before = toy_agent 2 1, self_after = toy_agent 2 2\<rparr>"
  have h: "observations (toy_buffer [1, 1, 1]) = Some [0, 1, 2]"
    "next_observations (toy_buffer [1, 1, 1]) = Some [1, 2, 3]"
    "actions (toy_buffer [1, 1, 1]) = Some [1, 1, 1]"
    "dones (toy_buffer [1, 1, 1]) = Some [False, False, True]"
    "rewards (toy_buffer [1, 1, 1]) = Some [Fin 1, Fin 1, Fin 1]"
    "aligned [0, 1, 2::nat] [1, 2, 3] [1, 1, 1] [False, False, True] [Fin 1, Fin 1, Fin 1]"
    "\<forall>p x. length (policy_forward toy p x) = 2" "\<forall>a\<in>set [1, 1, 1::nat]. a < 2"
    "batch_size (toy_agent 2 0) \<noteq> 0"
    "\<forall>g xs. mset (fst (shuffle toy g xs)) = mset xs"
    "[0, 1, 2::nat] \<noteq> [] \<or>
       (policy_empty toy (policy_net (toy_agent 2 0)) = None \<and>
        value_empty toy (value_net (toy_agent 2 0)) = None)"
    by (simp_all add: toy_buffer_def toy_def toy_agent_def aligned_def)
  from train_propagates_non_finite [OF h, of "()"] obtain self' b' rng' mss adv where
    t: "train toy (toy_agent 2 0) (toy_buffer [1, 1, 1]) () = Inr (self', b', rng', mss)"
    and a: "advantages b' = Some adv"
    and p: "\<forall>ms\<in>set mss. \<forall>m\<in>set ms.
         policy_loss m =
           policy_loss_of (epsilon (toy_agent 2 0)) (ratio m) (map (\<lambda>i. adv ! i) (sgd_idx_arr m)) \<and>
         (NaN \<in> set (ratio m) \<longrightarrow> policy_loss m = NaN)"
    by blast
  from t [unfolded toy_run_zero_probability] have mss: "mss = [[?m1, ?m2]]"
    and b': "b' = (toy_buffer [1, 1, 1])
            \<lparr>td_delta := Some [Fin 1, Fin 1, Fin 1],
             advantages := Some [Fin (3 / 2), Fin 1, Fin (1 / 2)]\<rparr>"
    by blast+
  have adv: "adv = [Fin (3 / 2), Fin 1, Fin (1 / 2)]" using a b' by simp
  from p have "policy_loss ?m1 =
           policy_loss_of (epsilon (toy_agent 2 0)) (ratio ?m1) (map (\<lambda>i. adv ! i) (sgd_idx_arr ?m1))"
    and "NaN \<in> set (ratio ?m1) \<longrightarrow> policy_loss ?m1 = NaN"
    and "policy_loss ?m2 =
           policy_loss_of (epsilon (toy_agent 2 0)) (ratio ?m2) (map (\<lambda>i. adv ! i) (sgd_idx_arr ?m2))"
    unfolding mss by simp_all
  then have "policy_loss ?m1 = policy_loss_of (1 / 5) [NaN, NaN] [Fin (1 / 2), Fin 1]"
    and "policy_loss ?m1 = NaN"
    and "policy_loss ?m2 = policy_loss_of (1 / 5) [PInf] [Fin (3 / 2)]"
    unfolding adv by (simp_all add: toy_agent_def)
  moreover have "ratio ?m1 = [NaN, NaN]" "ratio ?m2 = [PInf]" by simp_all
  moreover have "advantages ((toy_buffer [1, 1, 1])
            \<lparr>td_delta := Some [Fin 1, Fin 1, Fin 1],
             advantages := Some [Fin (3 / 2), Fin 1, Fin (1 / 2)]\<rparr>)
      = Some [Fin (3 / 2), Fin 1, Fin (1 / 2)]" by simp
  ultimately show ?thesis using toy_run_zero_probability by blast
qed

text \<open>
  C8 as the specification states it fails: on a buffer whose stored action has probability
  zero, the ratio of the first minibatch is \<^verbatim>\<open>nan\<close> and that of the second is \<^verbatim>\<open>inf\<close>;
  \<^verbatim>\<open>train\<close> raises nothing, computes the policy losses \<^verbatim>\<open>nan\<close> and \<^verbatim>\<open>-9/5\<close> from them
  and takes both gradient steps.
\<close>

theorem train_propagates_non_finite_counterexample:
  "\<exists>b' m1 m2.
     train toy (toy_agent 2 0) (toy_buffer [1, 1, 1]) ()
       = Inr (toy_agent 2 2, b', (), [[m1, m2]]) \<and>
     ratio m1 = [NaN, NaN] \<and> policy_loss m1 = NaN \<and>
     self_before m1 = toy_agent 2 0 \<and> self_after m1 = toy_agent 2 1 \<and>
     ratio m2 = [PInf] \<and> policy_loss m2 = Fin (- (9 / 5)) \<and>
     self_before m2 = toy_agent 2 1 \<and> self_after m2 = toy_agent 2 2 \<and>
     policy_net (toy_agent 2 0) = 0 \<and> policy_net (toy_agent 2 2) = 2"
proof -
  let ?m1 = "\<lparr>sgd_idx_arr = [2, 1], sgd_old_log_prob = [NInf, NInf], ratio = [NaN, NaN],
             td_target = [Fin 1, Fin 1], policy_loss = NaN, value_loss = Fin 1,
             self_before = toy_agent 2 0, self_after = toy_agent 2 1\<rparr>"
  let ?m2 = "\<lparr>sgd_idx_arr = [0], sgd_old_log_prob = [NInf], ratio = [PInf],
             td_target = [Fin (3 / 2)], policy_loss = Fin (- (9 / 5)), value_loss = Fin (1 / 4),
             self_before = toy_agent 2 1, self_after = toy_agent 2 2\<rparr>"
  have "ratio ?m1 = [NaN, NaN]" "policy_loss ?m1 = NaN"
    "self_before ?m1 = toy_agent 2 0" "self_after ?m1 = toy_agent 2 1"
    "ratio ?m2 = [PInf]" "policy_loss ?m2 = Fin (- (9 / 5))"
    "self_before ?m2 = toy_agent 2 1" "self_after ?m2 = toy_agent 2 2"
    by simp_all
  moreover have "policy_net (toy_agent 2 0) = 0" "policy_net (toy_agent 2 2) = 2"
    by (simp_all add: toy_agent_def)
  ultimately show ?thesis using toy_run_zero_probability by blast
qed

end
